theory Spec2Isabelle
  imports Complex_Main "HOL-Library.AList"
begin

section \<open>JavaScript values\<close>

text \<open>
  The chat route works on untyped JSON data (\<^verbatim>\<open>Record<string, unknown>\<close>, \<^verbatim>\<open>unknown\<close>),
  and tests it with \<^verbatim>\<open>typeof\<close>, \<^verbatim>\<open>=== null\<close> and truthiness.  Values are therefore a
  datatype of their own.  Numbers are rationals (every finite JSON number is one; NaN and
  the infinities cannot be written in JSON).  An object is an association list: the
  first pair of a key is the property, and the order of the pairs is insertion order.
\<close>

datatype jsval =
    JUndefined
  | JNull
  | JBool bool
  | JNum rat
  | JStr string
  | JArr "jsval list"
  | JObj "(string \<times> jsval) list"

type_synonym record_t = "(string \<times> jsval) list"

text \<open>\<^verbatim>\<open>typeof value\<close>.\<close>

fun typeof :: "jsval \<Rightarrow> string" where
  "typeof JUndefined = ''undefined''"
| "typeof JNull = ''object''"
| "typeof (JBool b) = ''boolean''"
| "typeof (JNum n) = ''number''"
| "typeof (JStr s) = ''string''"
| "typeof (JArr xs) = ''object''"
| "typeof (JObj kvs) = ''object''"

text \<open>Truthiness, as \<^verbatim>\<open>&&\<close>, \<^verbatim>\<open>?:\<close> and \<^verbatim>\<open>if\<close> test it.\<close>

fun truthy :: "jsval \<Rightarrow> bool" where
  "truthy JUndefined = False"
| "truthy JNull = False"
| "truthy (JBool b) = b"
| "truthy (JNum n) = (n \<noteq> 0)"
| "truthy (JStr s) = (s \<noteq> [])"
| "truthy (JArr xs) = True"
| "truthy (JObj kvs) = True"

text \<open>\<^verbatim>\<open>a ?? b\<close>.\<close>

definition nullish :: "jsval \<Rightarrow> jsval \<Rightarrow> jsval" where
  "nullish a b = (if a = JUndefined \<or> a = JNull then b else a)"

text \<open>
  \<^verbatim>\<open>value[key]\<close> for the property names this program reads from JSON data (the catalog's
  field names, \<^verbatim>\<open>id\<close>, \<^verbatim>\<open>hotel\<close>, \<^verbatim>\<open>payload\<close>, \<^verbatim>\<open>patch\<close>, \<^verbatim>\<open>draft\<close>, \<^verbatim>\<open>missing_fields\<close>,
  \<^verbatim>\<open>message\<close>): none of them is an index or a name on a built-in prototype, so a value
  that is not a plain object reads as \<^verbatim>\<open>undefined\<close>.  Reading a property of \<^verbatim>\<open>null\<close> or
  \<^verbatim>\<open>undefined\<close> throws: where the source does not guard it (\<^verbatim>\<open>??\<close>, \<^verbatim>\<open>?.\<close>, \<^verbatim>\<open>&&\<close>), the
  caller below has the throwing branch.
\<close>

fun get_prop :: "jsval \<Rightarrow> string \<Rightarrow> jsval" where
  "get_prop (JObj kvs) key = (case map_of kvs key of None \<Rightarrow> JUndefined | Some v \<Rightarrow> v)"
| "get_prop v key = JUndefined"

text \<open>
  \<^verbatim>\<open>value.length\<close> of a value that is neither \<^verbatim>\<open>null\<close> nor \<^verbatim>\<open>undefined\<close>: the number of
  elements of an array, the number of characters of a string, the own property of an
  object, and \<^verbatim>\<open>undefined\<close> for a number or a boolean.
\<close>

fun length_of :: "jsval \<Rightarrow> jsval" where
  "length_of (JArr xs) = JNum (of_nat (length xs))"
| "length_of (JStr s) = JNum (of_nat (length s))"
| "length_of (JObj kvs) = get_prop (JObj kvs) ''length''"
| "length_of v = JUndefined"

text \<open>\<^verbatim>\<open>value?.length\<close>.\<close>

definition optional_length :: "jsval \<Rightarrow> jsval" where
  "optional_length v = (if v = JUndefined \<or> v = JNull then JUndefined else length_of v)"

text \<open>
  \<^verbatim>\<open>value > 0\<close>.  A number compares as it is, \<^verbatim>\<open>true\<close> is 1, \<^verbatim>\<open>false\<close> and \<^verbatim>\<open>null\<close> are
  0, \<^verbatim>\<open>undefined\<close> is NaN; a string, an array or an object is first converted to a number
  by the runtime, and whether that number is positive is the parameter \<open>positive\<close>.
\<close>

fun greater_than_zero :: "(jsval \<Rightarrow> bool) \<Rightarrow> jsval \<Rightarrow> bool" where
  "greater_than_zero positive (JNum n) = (0 < n)"
| "greater_than_zero positive (JBool b) = b"
| "greater_than_zero positive JUndefined = False"
| "greater_than_zero positive JNull = False"
| "greater_than_zero positive v = positive v"

section \<open>Strings\<close>

text \<open>
  A string is a list of characters with code points below 256.  In that range
  \<^verbatim>\<open>String.prototype.trim\<close> removes TAB, LF, VT, FF, CR, SPACE and NBSP from both ends, and
  \<^verbatim>\<open>toLowerCase\<close> maps A..Z and the capital letters U+00C0..U+00DE (but not U+00D7) to
  the letters 32 code points later.
\<close>

definition is_whitespace :: "char \<Rightarrow> bool" where
  "is_whitespace c =
     (c \<in> set [CHR 0x09, CHR 0x0A, CHR 0x0B, CHR 0x0C, CHR 0x0D, CHR 0x20, CHR 0xA0])"

definition trim :: "string \<Rightarrow> string" where
  "trim s = rev (dropWhile is_whitespace (rev (dropWhile is_whitespace s)))"

definition lower_char :: "char \<Rightarrow> char" where
  "lower_char c =
     (let n = (of_char c :: nat)
      in if (65 \<le> n \<and> n \<le> 90) \<or> (192 \<le> n \<and> n \<le> 222 \<and> n \<noteq> 215)
         then char_of (n + 32) else c)"

definition toLowerCase :: "string \<Rightarrow> string" where
  "toLowerCase s = map lower_char s"

text \<open>\<^verbatim>\<open>s.includes(t)\<close> on strings: \<open>t\<close> occurs in \<open>s\<close> as a contiguous substring.\<close>

fun starts_with :: "string \<Rightarrow> string \<Rightarrow> bool" where
  "starts_with s [] = True"
| "starts_with [] (c # t) = False"
| "starts_with (d # s) (c # t) = (d = c \<and> starts_with s t)"

fun str_includes :: "string \<Rightarrow> string \<Rightarrow> bool" where
  "str_includes [] t = (t = [])"
| "str_includes (d # s) t = (starts_with (d # s) t \<or> str_includes s t)"

text \<open>\<^verbatim>\<open>lines.join(sep)\<close>.\<close>

fun join :: "string \<Rightarrow> string list \<Rightarrow> string" where
  "join sep [] = []"
| "join sep [x] = x"
| "join sep (x # y # ys) = x @ sep @ join sep (y # ys)"

section \<open>The field catalog\<close>

definition REQUIRED_FIELDS :: "string list" where
  "REQUIRED_FIELDS =
    [''hotel'',
     ''lead_time'',
     ''arrival_date_year'',
     ''arrival_date_month'',
     ''arrival_date_week_number'',
     ''arrival_date_day_of_month'',
     ''stays_in_weekend_nights'',
     ''stays_in_week_nights'',
     ''adults'',
     ''children'',
     ''babies'',
     ''meal'',
     ''country'',
     ''market_segment'',
     ''is_repeated_guest'',
     ''reserved_room_type'',
     ''customer_type'',
     ''adr'',
     ''required_car_parking_spaces'',
     ''total_of_special_requests'',
     ''reservation_status'',
     ''reservation_status_date'']"

definition MONTH_NAMES :: "string list" where
  "MONTH_NAMES =
    [''january'', ''february'', ''march'', ''april'', ''may'', ''june'', ''july'',
     ''august'', ''september'', ''october'', ''november'', ''december'']"

definition NUMBER_FIELDS :: "string list" where
  "NUMBER_FIELDS =
    [''lead_time'',
     ''arrival_date_year'',
     ''arrival_date_week_number'',
     ''arrival_date_day_of_month'',
     ''stays_in_weekend_nights'',
     ''stays_in_week_nights'',
     ''adults'',
     ''children'',
     ''babies'',
     ''adr'',
     ''required_car_parking_spaces'',
     ''total_of_special_requests'']"

definition BOOLEAN_FIELDS :: "string list" where
  "BOOLEAN_FIELDS = [''is_repeated_guest'']"

definition FIELD_LABELS :: "(string \<times> string) list" where
  "FIELD_LABELS =
    [(''hotel'', ''hotel (City Hotel or Resort Hotel)''),
     (''lead_time'', ''lead time (days before arrival)''),
     (''arrival_date_year'', ''arrival year (YYYY)''),
     (''arrival_date_month'', ''arrival month (full name, e.g. January)''),
     (''arrival_date_week_number'', ''arrival week number (1-53)''),
     (''arrival_date_day_of_month'', ''arrival day of month (1-31)''),
     (''stays_in_weekend_nights'', ''weekend nights''),
     (''stays_in_week_nights'', ''week nights''),
     (''adults'', ''number of adults''),
     (''children'', ''number of children''),
     (''babies'', ''number of babies''),
     (''meal'', ''meal plan (BB, HB, FB, SC, or empty)''),
     (''country'', ''country code (2-3 letters)''),
     (''market_segment'', ''market segment (Corporate, Direct, Groups, Online TA)''),
     (''is_repeated_guest'', ''repeat guest (true/false)''),
     (''reserved_room_type'', ''room type (A-H)''),
     (''customer_type'', ''customer type (Transient, Contract, Group, Other)''),
     (''adr'', ''average daily rate (ADR)''),
     (''required_car_parking_spaces'', ''required parking spaces''),
     (''total_of_special_requests'', ''total special requests''),
     (''reservation_status'', ''reservation status (Checked-In, Canceled, No-Show)''),
     (''reservation_status_date'', ''reservation status date (YYYY-MM-DD)'')]"

section \<open>The draft validator\<close>

text \<open>
  The callback of \<^verbatim>\<open>REQUIRED_FIELDS.filter\<close> in \<^verbatim>\<open>getMissingFields\<close>: one early return per
  line of the source, in the source's order.
\<close>

definition field_missing :: "jsval \<Rightarrow> string \<Rightarrow> bool" where
  "field_missing data field =
     (let v = get_prop data field
      in if v = JUndefined \<or> v = JNull then True
         else if typeof v = ''string'' \<and> (case v of JStr s \<Rightarrow> trim s = [] | _ \<Rightarrow> False)
           then True
         else if field \<in> set NUMBER_FIELDS \<and> typeof v \<noteq> ''number'' then True
         else if field \<in> set BOOLEAN_FIELDS \<and> typeof v \<noteq> ''boolean'' then True
         else if field = ''arrival_date_month'' \<and> typeof v = ''string''
                 \<and> (case v of JStr s \<Rightarrow> toLowerCase (trim s) \<notin> set MONTH_NAMES | _ \<Rightarrow> False)
           then True
         else False)"

definition getMissingFields :: "jsval \<Rightarrow> string list" where
  "getMissingFields draft =
     (let data = nullish draft (JObj [])
      in filter (field_missing data) REQUIRED_FIELDS)"

section \<open>Object properties and spread\<close>

text \<open>Decimal digits of an index, for the index properties of arrays and strings.\<close>

fun dec :: "nat \<Rightarrow> string" where
  "dec n = (if n < 10 then [char_of (48 + n)] else dec (n div 10) @ [char_of (48 + n mod 10)])"

text \<open>
  The own enumerable properties of a value, as a spread \<^verbatim>\<open>{...value}\<close> or a rest pattern
  \<^verbatim>\<open>{ id, ...rest } = value\<close> copies them: the properties of an object (each key once), the
  elements of an array and the characters of a string under their indices, and nothing
  for the other values.  The pairs come in insertion order; that ECMAScript enumerates
  integer-like keys first is not modelled.
\<close>

fun own_props :: "jsval \<Rightarrow> record_t" where
  "own_props (JObj kvs) = AList.clearjunk kvs"
| "own_props (JArr xs) = zip (map dec [0..<length xs]) xs"
| "own_props (JStr s) = zip (map dec [0..<length s]) (map (\<lambda>c. JStr [c]) s)"
| "own_props v = []"

text \<open>
  \<^verbatim>\<open>{ ...target, ...source }\<close>: the properties of the source are assigned one by one to a
  copy of the target; an existing key keeps its place and takes the new value, a new key is
  appended.
\<close>

definition spread :: "jsval \<Rightarrow> jsval \<Rightarrow> jsval" where
  "spread target source =
     JObj (fold (\<lambda>(k, v) acc. AList.update k v acc) (own_props source) (own_props target))"

section \<open>The world outside the turn\<close>

text \<open>
  A thrown value: \<^verbatim>\<open>error instanceof Error ? error.message : "Unknown error"\<close> tells an
  \<^verbatim>\<open>Error\<close> with its message from anything else.
\<close>

datatype thrown = Error string | NonError

definition error_text :: "thrown \<Rightarrow> string" where
  "error_text e = (case e of Error m \<Rightarrow> m | NonError \<Rightarrow> ''Unknown error'')"

datatype role_t = User | Assistant

record ChatMessage =
  role :: role_t
  content :: string

record ToolTrace =
  trace_name :: string
  trace_payload :: jsval
  trace_result :: jsval
  trace_error :: "string option"

text \<open>
  A tool call of the completion: \<^verbatim>\<open>toolCall.id\<close>, \<^verbatim>\<open>toolCall.function.name\<close> and what
  \<^verbatim>\<open>JSON.parse(toolCall.function.arguments || "{}")\<close> gives: the record the source casts
  it to, or the exception it throws.
\<close>

record tool_call =
  call_id :: string
  function_name :: string
  arguments :: "thrown + record_t"

text \<open>
  \<^verbatim>\<open>completion.choices[0].message\<close>: its tool calls (none when absent), and what
  \<^verbatim>\<open>extractJson(choice.message.content ?? "")\<close> returns for its content: the value
  \<^verbatim>\<open>JSON.parse\<close> gives, whatever its shape (the cast of the source checks nothing), or
  the object \<^verbatim>\<open>{ message: content }\<close> when the content is not JSON.
\<close>

record completion_message =
  tool_calls :: "tool_call list"
  extracted :: jsval

text \<open>
  The messages sent to the model.  The system prompt is a fixed text around
  \<^verbatim>\<open>JSON.stringify(booking ?? {})\<close> and a tool message carries
  \<^verbatim>\<open>JSON.stringify(result ?? {})\<close>: both are kept as the value that is serialised.
\<close>

datatype conv_msg =
    SystemPrompt jsval
  | Chat ChatMessage
  | ToolResult string jsval

text \<open>
  The collaborators of a turn, over a state \<open>'w\<close> of the outside world: the completion
  call (\<open>Inl\<close> when it throws or returns no first choice), the three calls of the record
  store's client (\<open>Inl\<close> when they throw: a transport failure or a response that is not
  ok), and three conversions of the JavaScript runtime: the text of a value that is not
  a string (as a template literal prints it and as a property key), the text of the
  member of \<^verbatim>\<open>Object.prototype\<close> of a given name, and whether a string, array or object
  converts to a positive number.
\<close>

record 'w env =
  chat_completion :: "'w \<Rightarrow> conv_msg list \<Rightarrow> (thrown + completion_message) \<times> 'w"
  createBooking :: "'w \<Rightarrow> jsval \<Rightarrow> (thrown + jsval) \<times> 'w"
  updateBooking :: "'w \<Rightarrow> jsval \<Rightarrow> jsval \<Rightarrow> (thrown + jsval) \<times> 'w"
  getBooking :: "'w \<Rightarrow> jsval \<Rightarrow> (thrown + jsval) \<times> 'w"
  to_text :: "jsval \<Rightarrow> string"
  inherited_text :: "string \<Rightarrow> string"
  positive :: "jsval \<Rightarrow> bool"

text \<open>
  Every call that leaves the turn is logged with its outcome, in order, so that a theorem
  can say which calls a turn issued.
\<close>

datatype store_call =
    CreateBooking jsval
  | UpdateBooking jsval jsval
  | GetBooking jsval

datatype event =
    Completed "thrown + completion_message"
  | StoreCall store_call "thrown + jsval"

record 'w state =
  world :: 'w
  events :: "event list"

definition perform :: "'w env \<Rightarrow> store_call \<Rightarrow> 'w \<Rightarrow> (thrown + jsval) \<times> 'w" where
  "perform env c w =
     (case c of
        CreateBooking p \<Rightarrow> createBooking env w p
      | UpdateBooking i p \<Rightarrow> updateBooking env w i p
      | GetBooking i \<Rightarrow> getBooking env w i)"

definition issue :: "'w env \<Rightarrow> store_call \<Rightarrow> 'w state \<Rightarrow> (thrown + jsval) \<times> 'w state" where
  "issue env c s =
     (let (out, w') = perform env c (world s)
      in (out, \<lparr>world = w', events = events s @ [StoreCall c out]\<rparr>))"

definition complete ::
  "'w env \<Rightarrow> conv_msg list \<Rightarrow> 'w state \<Rightarrow> (thrown + completion_message) \<times> 'w state" where
  "complete env conversation s =
     (let (out, w') = chat_completion env (world s) conversation
      in (out, \<lparr>world = w', events = events s @ [Completed out]\<rparr>))"

section \<open>The turn controller\<close>

record request_body =
  messages :: "ChatMessage list"
  body_booking :: jsval

record response =
  resp_message :: jsval
  resp_booking :: jsval
  resp_toolTrace :: "ToolTrace list"

text \<open>
  The names every object literal inherits from \<^verbatim>\<open>Object.prototype\<close>: indexing
  \<^verbatim>\<open>FIELD_LABELS\<close> with one of them gives the inherited member, not \<^verbatim>\<open>undefined\<close>.
\<close>

definition OBJECT_PROTOTYPE_NAMES :: "string list" where
  "OBJECT_PROTOTYPE_NAMES =
    [''constructor'', ''__defineGetter__'', ''__defineSetter__'', ''hasOwnProperty'',
     ''__lookupGetter__'', ''__lookupSetter__'', ''isPrototypeOf'', ''propertyIsEnumerable'',
     ''toString'', ''valueOf'', ''__proto__'', ''toLocaleString'']"

text \<open>
  \<^verbatim>\<open>`- ${FIELD_LABELS[field] ?? field}`\<close> without the dash: the key is the field as a
  property key; an own key gives its label, an inherited name the text of the inherited
  member, and any other key is printed itself.
\<close>

definition field_label :: "(jsval \<Rightarrow> string) \<Rightarrow> (string \<Rightarrow> string) \<Rightarrow> jsval \<Rightarrow> string" where
  "field_label text_of inherited field =
     (let key = (case field of JStr s \<Rightarrow> s | _ \<Rightarrow> text_of field)
      in case map_of FIELD_LABELS key of
           Some label \<Rightarrow> label
         | None \<Rightarrow> if key \<in> set OBJECT_PROTOTYPE_NAMES then inherited key else key)"

definition buildMissingMessage ::
  "(jsval \<Rightarrow> string) \<Rightarrow> (string \<Rightarrow> string) \<Rightarrow> jsval list \<Rightarrow> jsval \<Rightarrow> string" where
  "buildMissingMessage text_of inherited missingFields booking =
     (let hotel = (if booking = JUndefined \<or> booking = JNull then JUndefined
                   else get_prop booking ''hotel'');
          prefix = (if truthy hotel
                    then ''I can start a '' @ (case hotel of JStr s \<Rightarrow> s | _ \<Rightarrow> text_of hotel)
                         @ '' booking.''
                    else ''I can start your booking.'');
          lines = map (\<lambda>field. ''- '' @ field_label text_of inherited field) missingFields
      in prefix @ '' To complete it, please provide:'' @ [CHR 0x0A] @ join [CHR 0x0A] lines)"

text \<open>\<^verbatim>\<open>body.messages.at(-1)?.content ?? ""\<close> and the confirmation test on it.\<close>

definition latestUser :: "ChatMessage list \<Rightarrow> string" where
  "latestUser msgs = (if msgs = [] then [] else content (last msgs))"

definition confirmed :: "ChatMessage list \<Rightarrow> bool" where
  "confirmed msgs = str_includes (toLowerCase (latestUser msgs)) ''confirm''"

text \<open>
  The first branch of \<^verbatim>\<open>POST\<close>, taken when the user confirmed a complete draft: one
  call of the store inside \<^verbatim>\<open>try\<close>, and the \<^verbatim>\<open>catch\<close>.
\<close>

definition finalize_booking ::
  "'w env \<Rightarrow> jsval \<Rightarrow> 'w state \<Rightarrow> (thrown + response) \<times> 'w state" where
  "finalize_booking env booking s =
     (let is_update = (typeof (get_prop booking ''id'') = ''string'');
          id = get_prop booking ''id'';
          patch = JObj (AList.delete ''id'' (own_props booking));
          (out, s') = (if is_update then issue env (UpdateBooking id patch) s
                       else issue env (CreateBooking booking) s)
      in case out of
           Inr result \<Rightarrow>
             (Inr \<lparr>resp_message = JStr ''Your booking has been confirmed.'',
                   resp_booking = (if truthy result \<and> typeof result = ''object'' then result
                              else booking),
                   resp_toolTrace =
                     [if is_update
                      then \<lparr>trace_name = ''update_booking'',
                            trace_payload = JObj [(''id'', id), (''patch'', patch)],
                            trace_result = result, trace_error = None\<rparr>
                      else \<lparr>trace_name = ''create_booking'',
                            trace_payload = JObj [(''payload'', booking)],
                            trace_result = result, trace_error = None\<rparr>]\<rparr>, s')
         | Inl err \<Rightarrow>
             (Inr \<lparr>resp_message = JStr ''I couldn't finalize the booking. Please try again.'',
                   resp_booking = booking,
                   resp_toolTrace =
                     [\<lparr>trace_name = (if is_update then ''update_booking'' else ''create_booking''),
                       trace_payload = booking, trace_result = JUndefined,
                       trace_error = Some (error_text err)\<rparr>]\<rparr>, s'))"

text \<open>The store call a tool call stands for; a name that is none of the three calls nothing.\<close>

definition run_tool ::
  "'w env \<Rightarrow> string \<Rightarrow> record_t \<Rightarrow> 'w state \<Rightarrow> (thrown + jsval) \<times> 'w state" where
  "run_tool env fname args s =
     (if fname = ''create_booking''
        then issue env (CreateBooking (get_prop (JObj args) ''payload'')) s
      else if fname = ''update_booking''
        then issue env (UpdateBooking (get_prop (JObj args) ''id'')
                                      (get_prop (JObj args) ''patch'')) s
      else if fname = ''get_booking''
        then issue env (GetBooking (get_prop (JObj args) ''id'')) s
      else (Inr JUndefined, s))"

text \<open>
  The loop over \<^verbatim>\<open>choice.message.tool_calls\<close>.  \<open>Inl\<close> ends the turn (an exception that
  escapes, or the early return of the gate); \<open>Inr\<close> carries the variables \<^verbatim>\<open>booking\<close>,
  \<^verbatim>\<open>toolTrace\<close> and \<^verbatim>\<open>conversation\<close> on to the next round.
\<close>

fun run_tool_calls ::
  "'w env \<Rightarrow> bool \<Rightarrow> tool_call list \<Rightarrow> jsval \<Rightarrow> ToolTrace list \<Rightarrow> conv_msg list \<Rightarrow> 'w state
     \<Rightarrow> ((thrown + response) + jsval \<times> ToolTrace list \<times> conv_msg list) \<times> 'w state" where
  "run_tool_calls env conf [] booking trace conversation s =
     (Inr (booking, trace, conversation), s)"
| "run_tool_calls env conf (tc # rest) booking trace conversation s =
     (case arguments tc of
        Inl syntax_error \<Rightarrow> (Inl (Inl syntax_error), s)
      | Inr args \<Rightarrow>
          if \<not> conf \<and> function_name tc \<in> set [''create_booking'', ''update_booking'']
          then (Inl (Inr \<lparr>resp_message =
                            JStr ''I have the booking summary ready. Please say confirm to proceed.'',
                          resp_booking = booking, resp_toolTrace = trace\<rparr>), s)
          else
            (case run_tool env (function_name tc) args s of
               (Inr result, s') \<Rightarrow>
                 run_tool_calls env conf rest
                   (if truthy result \<and> typeof result = ''object'' then result else booking)
                   (trace @ [\<lparr>trace_name = function_name tc, trace_payload = JObj args,
                               trace_result = result, trace_error = None\<rparr>])
                   (conversation @ [ToolResult (call_id tc) (nullish result (JObj []))])
                   s'
             | (Inl err, s') \<Rightarrow>
                 run_tool_calls env conf rest booking
                   (trace @ [\<lparr>trace_name = function_name tc, trace_payload = JObj args,
                               trace_result = JUndefined, trace_error = Some (error_text err)\<rparr>])
                   conversation s'))"

text \<open>\<^verbatim>\<open>booking = { ...(booking ?? {}), ...parsed.draft }\<close>.\<close>

definition merge_draft :: "jsval \<Rightarrow> jsval \<Rightarrow> jsval" where
  "merge_draft booking delta = spread (nullish booking (JObj [])) delta"

text \<open>
  The end of a round whose completion has no tool calls (lines 307 to 322).  Nothing
  here is inside \<^verbatim>\<open>try\<close>: reading \<^verbatim>\<open>parsed.draft\<close> of a content that parsed to \<^verbatim>\<open>null\<close>
  throws, and so does \<^verbatim>\<open>missingFields.map\<close> in \<^verbatim>\<open>buildMissingMessage\<close> when the model's
  \<^verbatim>\<open>missing_fields\<close> is not an array.
\<close>

definition content_reply ::
  "'w env \<Rightarrow> jsval \<Rightarrow> jsval \<Rightarrow> ToolTrace list \<Rightarrow> thrown + response" where
  "content_reply env parsed booking trace =
     (if parsed = JUndefined \<or> parsed = JNull
      then Inl (Error ''Cannot read properties of null (reading 'draft')'')
      else
        (let d = get_prop parsed ''draft'';
             booking' = (if truthy d \<and> typeof d = ''object'' then merge_draft booking d
                         else booking);
             m = get_prop parsed ''missing_fields'';
             missingFields =
               (if truthy (optional_length m)
                then m
                else JArr (map JStr (getMissingFields booking')))
         in if greater_than_zero (positive env) (length_of missingFields)
            then (case missingFields of
                    JArr entries \<Rightarrow>
                      Inr \<lparr>resp_message =
                             JStr (buildMissingMessage (to_text env) (inherited_text env)
                                     entries booking'),
                           resp_booking = booking', resp_toolTrace = trace\<rparr>
                  | _ \<Rightarrow> Inl (Error ''missingFields.map is not a function''))
            else Inr \<lparr>resp_message = nullish (get_prop parsed ''message'') (JStr []),
                       resp_booking = booking', resp_toolTrace = trace\<rparr>))"

text \<open>
  \<^verbatim>\<open>for (let i = 0; i < 2; i += 1)\<close>, by the number of rounds that are left, and the
  return after the loop.
\<close>

fun completion_rounds ::
  "nat \<Rightarrow> 'w env \<Rightarrow> bool \<Rightarrow> jsval \<Rightarrow> ToolTrace list \<Rightarrow> conv_msg list \<Rightarrow> 'w state
     \<Rightarrow> (thrown + response) \<times> 'w state" where
  "completion_rounds 0 env conf booking trace conversation s =
     (Inr \<lparr>resp_message = JStr ''Let's continue the booking details.'',
           resp_booking = booking, resp_toolTrace = trace\<rparr>, s)"
| "completion_rounds (Suc n) env conf booking trace conversation s =
     (case complete env conversation s of
        (Inl err, s1) \<Rightarrow> (Inl err, s1)
      | (Inr msg, s1) \<Rightarrow>
          if tool_calls msg \<noteq> []
          then (case run_tool_calls env conf (tool_calls msg) booking trace conversation s1 of
                  (Inl final, s2) \<Rightarrow> (final, s2)
                | (Inr (booking', trace', conversation'), s2) \<Rightarrow>
                    completion_rounds n env conf booking' trace' conversation' s2)
          else (content_reply env (extracted msg) booking trace, s1))"

definition POST :: "'w env \<Rightarrow> request_body \<Rightarrow> 'w \<Rightarrow> (thrown + response) \<times> 'w state" where
  "POST env body w =
     (let conf = confirmed (messages body);
          conversation = SystemPrompt (nullish (nullish (body_booking body) JNull) (JObj []))
                         # map Chat (messages body);
          booking = nullish (body_booking body) JNull;
          missingBefore = getMissingFields booking;
          s = \<lparr>world = w, events = []\<rparr>
      in if conf \<and> truthy booking \<and> length missingBefore = 0
         then finalize_booking env booking s
         else completion_rounds 2 env conf booking [] conversation s)"

section \<open>The record store: validation and the create route\<close>

definition HOTEL_ENUM :: "string list" where
  "HOTEL_ENUM = [''City Hotel'', ''Resort Hotel'']"

definition MEAL_ENUM :: "string list" where
  "MEAL_ENUM = [''BB'', ''HB'', ''FB'', ''SC'', '''']"

definition MARKET_SEGMENT_ENUM :: "string list" where
  "MARKET_SEGMENT_ENUM = [''Corporate'', ''Direct'', ''Groups'', ''Online TA'']"

definition CUSTOMER_TYPE_ENUM :: "string list" where
  "CUSTOMER_TYPE_ENUM = [''Transient'', ''Contract'', ''Group'', ''Other'']"

definition RESERVED_ROOM_ENUM :: "string list" where
  "RESERVED_ROOM_ENUM = [''A'', ''B'', ''C'', ''D'', ''E'', ''F'', ''G'', ''H'']"

definition RES_STATUS_ENUM :: "string list" where
  "RES_STATUS_ENUM = [''Canceled'', ''Checked-In'', ''No-Show'']"

text \<open>
  The checks of the schema, each a predicate on the value read from the body:
  \<^verbatim>\<open>z.enum(...)\<close>, \<^verbatim>\<open>z.number().int().min(lo)\<close> (also \<^verbatim>\<open>nonnegative()\<close>),
  \<^verbatim>\<open>z.number().int().min(lo).max(hi)\<close>, \<^verbatim>\<open>z.number()\<close>, \<^verbatim>\<open>z.boolean()\<close>,
  \<^verbatim>\<open>z.string().min(lo)\<close>, \<^verbatim>\<open>z.string().min(lo).max(hi)\<close>,
  \<^verbatim>\<open>z.string().nullable().optional()\<close> and \<^verbatim>\<open>z.string().regex(/^\d{4}-\d{2}-\d{2}$/)\<close>.
\<close>

definition z_enum :: "string list \<Rightarrow> jsval \<Rightarrow> bool" where
  "z_enum options v = (case v of JStr s \<Rightarrow> s \<in> set options | _ \<Rightarrow> False)"

definition z_int_min :: "rat \<Rightarrow> jsval \<Rightarrow> bool" where
  "z_int_min lo v = (case v of JNum n \<Rightarrow> frac n = 0 \<and> lo \<le> n | _ \<Rightarrow> False)"

definition z_int_range :: "rat \<Rightarrow> rat \<Rightarrow> jsval \<Rightarrow> bool" where
  "z_int_range lo hi v = (case v of JNum n \<Rightarrow> frac n = 0 \<and> lo \<le> n \<and> n \<le> hi | _ \<Rightarrow> False)"

definition z_number :: "jsval \<Rightarrow> bool" where
  "z_number v = (case v of JNum n \<Rightarrow> True | _ \<Rightarrow> False)"

definition z_boolean :: "jsval \<Rightarrow> bool" where
  "z_boolean v = (case v of JBool b \<Rightarrow> True | _ \<Rightarrow> False)"

definition z_string_min :: "nat \<Rightarrow> jsval \<Rightarrow> bool" where
  "z_string_min lo v = (case v of JStr s \<Rightarrow> lo \<le> length s | _ \<Rightarrow> False)"

definition z_string_range :: "nat \<Rightarrow> nat \<Rightarrow> jsval \<Rightarrow> bool" where
  "z_string_range lo hi v =
     (case v of JStr s \<Rightarrow> lo \<le> length s \<and> length s \<le> hi | _ \<Rightarrow> False)"

definition z_optional_string :: "jsval \<Rightarrow> bool" where
  "z_optional_string v =
     (case v of JUndefined \<Rightarrow> True | JNull \<Rightarrow> True | JStr s \<Rightarrow> True | _ \<Rightarrow> False)"

definition is_digit :: "char \<Rightarrow> bool" where
  "is_digit c = (c \<in> set ''0123456789'')"

fun date_shape :: "string \<Rightarrow> bool" where
  "date_shape [y1, y2, y3, y4, d1, m1, m2, d2, n1, n2] =
     (is_digit y1 \<and> is_digit y2 \<and> is_digit y3 \<and> is_digit y4 \<and> d1 = CHR ''-''
      \<and> is_digit m1 \<and> is_digit m2 \<and> d2 = CHR ''-'' \<and> is_digit n1 \<and> is_digit n2)"
| "date_shape s = False"

definition z_date :: "jsval \<Rightarrow> bool" where
  "z_date v = (case v of JStr s \<Rightarrow> date_shape s | _ \<Rightarrow> False)"

definition bookingBaseSchema :: "(string \<times> (jsval \<Rightarrow> bool)) list" where
  "bookingBaseSchema =
    [(''hotel'', z_enum HOTEL_ENUM),
     (''lead_time'', z_int_min 0),
     (''arrival_date_year'', z_int_min 2000),
     (''arrival_date_month'', z_string_min 1),
     (''arrival_date_week_number'', z_int_range 1 53),
     (''arrival_date_day_of_month'', z_int_range 1 31),
     (''stays_in_weekend_nights'', z_int_min 0),
     (''stays_in_week_nights'', z_int_min 0),
     (''adults'', z_int_min 0),
     (''children'', z_int_min 0),
     (''babies'', z_int_min 0),
     (''meal'', z_enum MEAL_ENUM),
     (''country'', z_string_range 2 3),
     (''market_segment'', z_enum MARKET_SEGMENT_ENUM),
     (''is_repeated_guest'', z_boolean),
     (''reserved_room_type'', z_enum RESERVED_ROOM_ENUM),
     (''agent'', z_optional_string),
     (''company'', z_optional_string),
     (''customer_type'', z_enum CUSTOMER_TYPE_ENUM),
     (''adr'', z_number),
     (''required_car_parking_spaces'', z_int_min 0),
     (''total_of_special_requests'', z_int_min 0),
     (''reservation_status'', z_enum RES_STATUS_ENUM),
     (''reservation_status_date'', z_date)]"

definition bookingCreateSchema :: "(string \<times> (jsval \<Rightarrow> bool)) list" where
  "bookingCreateSchema = bookingBaseSchema"

text \<open>
  \<^verbatim>\<open>schema.parse(req.body)\<close> for an object schema: the body must be a plain object and every
  key of the schema must pass its check; the result holds the schema's keys that the body
  has, in the schema's order, and no other key.  \<open>Inl\<close> is the \<^verbatim>\<open>ZodError\<close>, with the
  keys that failed.
\<close>

definition schema_parse :: "(string \<times> (jsval \<Rightarrow> bool)) list \<Rightarrow> jsval \<Rightarrow> string list + record_t" where
  "schema_parse shape body =
     (case body of
        JObj kvs \<Rightarrow>
          (let failed = filter (\<lambda>(key, check). \<not> check (get_prop body key)) shape
           in if failed \<noteq> [] then Inl (map fst failed)
              else Inr (map (\<lambda>(key, check). (key, get_prop body key))
                          (filter (\<lambda>(key, check). map_of kvs key \<noteq> None) shape)))
      | _ \<Rightarrow> Inl [])"

definition monthMap :: "(string \<times> nat) list" where
  "monthMap =
    [(''january'', 0), (''february'', 1), (''march'', 2), (''april'', 3), (''may'', 4),
     (''june'', 5), (''july'', 6), (''august'', 7), (''september'', 8), (''october'', 9),
     (''november'', 10), (''december'', 11)]"

text \<open>
  \<^verbatim>\<open>monthMap[normalized]\<close>.  \<^verbatim>\<open>monthMap\<close> is an object literal, so the two lower-case
  names it inherits from \<^verbatim>\<open>Object.prototype\<close> read as an object, not as \<^verbatim>\<open>undefined\<close>.
\<close>

definition month_index :: "string \<Rightarrow> jsval" where
  "month_index normalized =
     (case map_of monthMap normalized of
        Some i \<Rightarrow> JNum (of_nat i)
      | None \<Rightarrow> if normalized \<in> set [''constructor'', ''__proto__''] then JObj [] else JUndefined)"

text \<open>
  What the route needs from its runtime: the date \<^verbatim>\<open>new Date(Date.UTC(year, month, day))\<close>
  as the store keeps and serialises it, and \<^verbatim>\<open>prisma.booking.create\<close>, which may throw.
\<close>

record store_runtime =
  utc_date :: "rat \<Rightarrow> jsval \<Rightarrow> rat \<Rightarrow> jsval"
  insert_booking :: "record_t \<Rightarrow> thrown + record_t"

definition computeArrivalDate ::
  "store_runtime \<Rightarrow> rat \<Rightarrow> string \<Rightarrow> rat \<Rightarrow> thrown + jsval" where
  "computeArrivalDate rt year month day =
     (let normalized = toLowerCase (trim month);
          monthIndex = month_index normalized
      in if monthIndex = JUndefined then Inl (Error (''Invalid month name: '' @ month))
         else Inr (utc_date rt year monthIndex day))"

text \<open>
  The responses of \<^verbatim>\<open>POST /api/v1/bookings\<close>: 201 with the booking, or the error
  handler's 400 and 500 with a code and a message.
\<close>

datatype api_response =
    Created jsval
  | Rejected string string

definition number_of :: "jsval \<Rightarrow> rat" where
  "number_of v = (case v of JNum n \<Rightarrow> n | _ \<Rightarrow> 0)"

definition string_of :: "jsval \<Rightarrow> string" where
  "string_of v = (case v of JStr s \<Rightarrow> s | _ \<Rightarrow> [])"

definition create_route :: "store_runtime \<Rightarrow> jsval \<Rightarrow> api_response" where
  "create_route rt body =
     (case schema_parse bookingCreateSchema body of
        Inl failed \<Rightarrow> Rejected ''VALIDATION_ERROR'' ''Invalid request payload''
      | Inr payload \<Rightarrow>
          (case computeArrivalDate rt
                  (number_of (get_prop (JObj payload) ''arrival_date_year''))
                  (string_of (get_prop (JObj payload) ''arrival_date_month''))
                  (number_of (get_prop (JObj payload) ''arrival_date_day_of_month'')) of
             Inl err \<Rightarrow> Rejected ''INVALID_MONTH'' (error_text err)
           | Inr arrival_date \<Rightarrow>
               (case insert_booking rt
                       (AList.update ''company'' (nullish (get_prop (JObj payload) ''company'') JNull)
                          (AList.update ''agent'' (nullish (get_prop (JObj payload) ''agent'') JNull)
                             (AList.update ''arrival_date'' arrival_date payload))) of
                  Inl err \<Rightarrow> Rejected ''INTERNAL_ERROR'' ''Unexpected error''
                | Inr row \<Rightarrow> Created (JObj row))))"

text \<open>
  \<^verbatim>\<open>createBooking\<close> of the client: the \<^verbatim>\<open>data\<close> of a response that is ok, an \<^verbatim>\<open>Error\<close> with
  the response's message otherwise.
\<close>

definition client_createBooking :: "store_runtime \<Rightarrow> jsval \<Rightarrow> thrown + jsval" where
  "client_createBooking rt payload =
     (case create_route rt payload of
        Created b \<Rightarrow> Inr b
      | Rejected code msg \<Rightarrow> Inl (Error msg))"

text \<open>
  Modelled from the spec: the row \<^verbatim>\<open>prisma.booking.create\<close> returns (the Prisma model is
  not among the sources).  A persisted booking is an identifier plus all booking fields, a
  creation timestamp, and a soft-delete marker.
\<close>

definition persisted_booking :: "string \<Rightarrow> jsval \<Rightarrow> record_t \<Rightarrow> record_t" where
  "persisted_booking new_id now row =
     (''id'', JStr new_id) # row @ [(''created_at'', now), (''deleted_at'', JNull)]"

section \<open>The validator as the specification words it\<close>

definition CANONICAL_MONTHS :: "string list" where
  "CANONICAL_MONTHS =
    [''January'', ''February'', ''March'', ''April'', ''May'', ''June'', ''July'',
     ''August'', ''September'', ''October'', ''November'', ''December'']"

definition whitespace_only :: "string \<Rightarrow> bool" where
  "whitespace_only s = list_all is_whitespace s"

definition canonical_month :: "string \<Rightarrow> bool" where
  "canonical_month s = list_ex (\<lambda>m. toLowerCase (trim s) = toLowerCase m) CANONICAL_MONTHS"

fun missing_value_spec :: "string \<Rightarrow> jsval \<Rightarrow> bool" where
  "missing_value_spec f JUndefined = True"
| "missing_value_spec f JNull = True"
| "missing_value_spec f (JStr s) =
     (whitespace_only s \<or> f \<in> set NUMBER_FIELDS \<or> f \<in> set BOOLEAN_FIELDS
      \<or> (f = ''arrival_date_month'' \<and> \<not> canonical_month s))"
| "missing_value_spec f (JNum n) = (f \<in> set BOOLEAN_FIELDS)"
| "missing_value_spec f (JBool b) = (f \<in> set NUMBER_FIELDS)"
| "missing_value_spec f (JArr xs) = (f \<in> set NUMBER_FIELDS \<or> f \<in> set BOOLEAN_FIELDS)"
| "missing_value_spec f (JObj kvs) = (f \<in> set NUMBER_FIELDS \<or> f \<in> set BOOLEAN_FIELDS)"

definition missing_by_spec :: "jsval \<Rightarrow> string list" where
  "missing_by_spec draft =
     filter (\<lambda>f. missing_value_spec f (get_prop (nullish draft (JObj [])) f)) REQUIRED_FIELDS"


section \<open>Concrete drafts\<close>

text \<open>A draft with every required field, but for the month name it is given.\<close>

definition booking_fields :: "string \<Rightarrow> record_t" where
  "booking_fields month =
     [(''hotel'', JStr ''Resort Hotel''), (''lead_time'', JNum 10),
       (''arrival_date_year'', JNum 2027), (''arrival_date_month'', JStr month),
       (''arrival_date_week_number'', JNum 33), (''arrival_date_day_of_month'', JNum 15),
       (''stays_in_weekend_nights'', JNum 2), (''stays_in_week_nights'', JNum 3),
       (''adults'', JNum 2), (''children'', JNum 1), (''babies'', JNum 0),
       (''meal'', JStr ''BB''), (''country'', JStr ''PRT''), (''market_segment'', JStr ''Direct''),
       (''is_repeated_guest'', JBool False), (''reserved_room_type'', JStr ''A''),
       (''customer_type'', JStr ''Transient''), (''adr'', JNum (199 / 2)),
       (''required_car_parking_spaces'', JNum 0), (''total_of_special_requests'', JNum 1),
       (''reservation_status'', JStr ''Checked-In''),
       (''reservation_status_date'', JStr ''2027-08-15'')]"

definition scenario_E_draft :: "string \<Rightarrow> jsval" where
  "scenario_E_draft month = JObj (booking_fields month)"

text \<open>A complete draft that was never persisted, and one that carries an identifier.\<close>

definition new_draft :: jsval where
  "new_draft = JObj (booking_fields ''August'')"

definition stored_draft :: jsval where
  "stored_draft = JObj ((''id'', JStr ''bk-1'') # booking_fields ''August'')"

definition user_says :: "string \<Rightarrow> ChatMessage list" where
  "user_says s = [\<lparr>role = User, content = s\<rparr>]"

text \<open>
  A world that counts the calls made into it.  The store answers every call with the
  given outcome; the model answers the first completion with the first message and every
  later one with the second.
\<close>

definition scripted_env ::
  "completion_message \<Rightarrow> completion_message \<Rightarrow> thrown + jsval \<Rightarrow> nat env" where
  "scripted_env first later store_out =
     \<lparr>chat_completion = (\<lambda>w conv. (Inr (if w = 0 then first else later), Suc w)),
      createBooking = (\<lambda>w p. (store_out, Suc w)),
      updateBooking = (\<lambda>w i p. (store_out, Suc w)),
      getBooking = (\<lambda>w i. (store_out, Suc w)),
      to_text = (\<lambda>v. ''[object Object]''),
      inherited_text = (\<lambda>key. ''function () { [native code] }''),
      positive = (\<lambda>v. False)\<rparr>"

definition says :: "string \<Rightarrow> completion_message" where
  "says m = \<lparr>tool_calls = [], extracted = JObj [(''message'', JStr m)]\<rparr>"

definition calls_tool :: "string \<Rightarrow> record_t \<Rightarrow> completion_message" where
  "calls_tool fname args =
     \<lparr>tool_calls = [\<lparr>call_id = ''call_1'', function_name = fname, arguments = Inr args\<rparr>],
      extracted = JObj [(''message'', JStr [])]\<rparr>"


section \<open>What a turn issued, read from its log\<close>

text \<open>The store calls of a log, in order, and those among them that mutate the store.\<close>

fun is_mutation :: "store_call \<Rightarrow> bool" where
  "is_mutation (CreateBooking p) = True"
| "is_mutation (UpdateBooking i p) = True"
| "is_mutation (GetBooking i) = False"

fun store_calls :: "event list \<Rightarrow> store_call list" where
  "store_calls [] = []"
| "store_calls (StoreCall c out # evs) = c # store_calls evs"
| "store_calls (Completed out # evs) = store_calls evs"

definition mutations :: "event list \<Rightarrow> store_call list" where
  "mutations evs = filter is_mutation (store_calls evs)"

text \<open>
  The mutation the specification prescribes for a confirmed, complete draft: an update of
  the booking \<^verbatim>\<open>id\<close> with every other field as the patch when the draft carries a string
  \<^verbatim>\<open>id\<close>, a create with the whole draft otherwise.
\<close>

definition authorized_mutation :: "jsval \<Rightarrow> store_call" where
  "authorized_mutation b =
     (case get_prop b ''id'' of
        JStr i \<Rightarrow> UpdateBooking (JStr i) (JObj (AList.delete ''id'' (own_props b)))
      | _ \<Rightarrow> CreateBooking b)"

text \<open>Some completion of the log proposed a tool call that names a mutating action.\<close>

definition names_mutation :: "tool_call \<Rightarrow> bool" where
  "names_mutation tc = (function_name tc \<in> set [''create_booking'', ''update_booking''])"

fun proposed_mutation :: "event list \<Rightarrow> bool" where
  "proposed_mutation [] = False"
| "proposed_mutation (Completed (Inr m) # evs) =
     (list_ex names_mutation (tool_calls m) \<or> proposed_mutation evs)"
| "proposed_mutation (e # evs) = proposed_mutation evs"

text \<open>
  The draft at a point of the turn: the incoming draft, replaced by each object a store
  call has returned so far.
\<close>

fun draft_after :: "jsval \<Rightarrow> event list \<Rightarrow> jsval" where
  "draft_after b [] = b"
| "draft_after b (StoreCall c (Inr r) # evs) =
     draft_after (if truthy r \<and> typeof r = ''object'' then r else b) evs"
| "draft_after b (e # evs) = draft_after b evs"

text \<open>The events of a log that are store calls, and a log that ends with a completion.\<close>

fun is_store_event :: "event \<Rightarrow> bool" where
  "is_store_event (StoreCall c out) = True"
| "is_store_event (Completed out) = False"

definition ends_with_content :: "event list \<Rightarrow> completion_message \<Rightarrow> bool" where
  "ends_with_content evs m = (evs \<noteq> [] \<and> last evs = Completed (Inr m) \<and> tool_calls m = [])"

text \<open>Reading a decimal numeral back, the inverse of \<open>dec\<close>.\<close>

definition undec :: "string \<Rightarrow> nat" where
  "undec s = foldl (\<lambda>a c. 10 * a + (of_char c - 48)) 0 s"


text \<open>
  The labels of the fields a draft is missing, in catalog order: the rows of the label
  table whose field the validator reports.
\<close>

definition missing_labels :: "jsval \<Rightarrow> string list" where
  "missing_labels b =
     map snd (filter (\<lambda>(field, label). field_missing (nullish b (JObj [])) field) FIELD_LABELS)"

text \<open>
  Scenario A: an empty draft, and a model that extracts the hotel from the request; its
  JSON may hold further keys.
\<close>

definition extracts_hotel :: "record_t \<Rightarrow> completion_message" where
  "extracts_hotel extra =
     \<lparr>tool_calls = [],
      extracted = JObj ([(''message'', JStr ''Sure.''),
                         (''draft'', JObj [(''hotel'', JStr ''Resort Hotel'')])] @ extra)\<rparr>"

text \<open>The completions of a log that carry tool calls: the rounds the loop went on from.\<close>

fun tool_rounds :: "event list \<Rightarrow> nat" where
  "tool_rounds [] = 0"
| "tool_rounds (Completed (Inr m) # evs) =
     (if tool_calls m \<noteq> [] then Suc (tool_rounds evs) else tool_rounds evs)"
| "tool_rounds (e # evs) = tool_rounds evs"

text \<open>
  A payload that passes the create validation with the empty meal plan of \<^verbatim>\<open>MEAL_ENUM\<close>,
  and a runtime of the store that persists what it is given.
\<close>

definition empty_meal_payload :: jsval where
  "empty_meal_payload = JObj (AList.update ''meal'' (JStr []) (booking_fields ''August''))"

definition persisting_runtime :: store_runtime where
  "persisting_runtime =
     \<lparr>utc_date = (\<lambda>year monthIndex day. JArr [JNum year, monthIndex, JNum day]),
      insert_booking =
        (\<lambda>row. Inr (persisted_booking ''bk-2'' (JStr ''2027-01-01T00:00:00.000Z'') row))\<rparr>"

text \<open>
  A payload with a country code of two spaces: long enough for the create validation,
  blank for the draft validator.
\<close>

definition blank_country_payload :: jsval where
  "blank_country_payload = JObj (AList.update ''country'' (JStr ''  '') (booking_fields ''August''))"

text \<open>The booking that runtime returns for the complete draft.\<close>

definition created_booking :: jsval where
  "created_booking =
     JObj (persisted_booking ''bk-2'' (JStr ''2027-01-01T00:00:00.000Z'')
             (booking_fields ''August''
              @ [(''arrival_date'', JArr [JNum 2027, JNum 7, JNum 15]),
                 (''agent'', JNull), (''company'', JNull)]))"

text \<open>The draft of scenario A after the model's delta, and a lookup that finds nothing.\<close>

definition hotel_draft :: jsval where
  "hotel_draft = JObj [(''hotel'', JStr ''Resort Hotel'')]"

definition looks_up :: completion_message where
  "looks_up = calls_tool ''get_booking'' [(''id'', JStr ''bk-9'')]"

section \<open>Properties of the draft validator\<close>

lemma dropWhile_all_iff:
  "(\<forall>c \<in> set (dropWhile P s). P c) \<longleftrightarrow> dropWhile P s = []"
proof
  assume all: "\<forall>c \<in> set (dropWhile P s). P c"
  show "dropWhile P s = []"
  proof (rule ccontr)
    assume ne: "dropWhile P s \<noteq> []"
    then have "\<not> P (hd (dropWhile P s))"
      by (rule hd_dropWhile)
    moreover have "hd (dropWhile P s) \<in> set (dropWhile P s)"
      using ne by simp
    ultimately show False using all by blast
  qed
next
  assume e: "dropWhile P s = []"
  show "\<forall>c \<in> set (dropWhile P s). P c"
    unfolding e by simp
qed

lemma trim_empty_iff: "trim s = [] \<longleftrightarrow> list_all is_whitespace s"
proof -
  have "trim s = [] \<longleftrightarrow> (\<forall>c \<in> set (dropWhile is_whitespace s). is_whitespace c)"
    by (simp add: trim_def dropWhile_eq_Nil_conv)
  also have "(\<forall>c \<in> set (dropWhile is_whitespace s). is_whitespace c)
      \<longleftrightarrow> dropWhile is_whitespace s = []"
    by (rule dropWhile_all_iff)
  also have "dropWhile is_whitespace s = [] \<longleftrightarrow> list_all is_whitespace s"
    by (simp add: dropWhile_eq_Nil_conv list_all_iff)
  finally show ?thesis .
qed

lemma lower_canonical_months: "map toLowerCase CANONICAL_MONTHS = MONTH_NAMES"
  by code_simp

lemma canonical_month_iff: "canonical_month s \<longleftrightarrow> toLowerCase (trim s) \<in> set MONTH_NAMES"
proof -
  have "canonical_month s \<longleftrightarrow> toLowerCase (trim s) \<in> set (map toLowerCase CANONICAL_MONTHS)"
    by (auto simp: canonical_month_def list_ex_iff)
  then show ?thesis by (simp only: lower_canonical_months)
qed

lemma field_missing_spec:
  "field_missing data f = missing_value_spec f (get_prop data f)"
  by (cases "get_prop data f")
     (simp_all add: field_missing_def Let_def whitespace_only_def trim_empty_iff canonical_month_iff)

text \<open>
  C2: for every draft, \<open>getMissingFields\<close> returns exactly the required fields, in catalog
  order, whose value is absent, null, an empty or whitespace-only string, not a number for a
  numeric field, not a boolean for the boolean field, or, for \<open>arrival_date_month\<close>, a
  string that (trimmed, case-insensitively) is none of the twelve month names; every other
  field counts as present, whatever its type.
\<close>

theorem getMissingFields_spec: "getMissingFields draft = missing_by_spec draft"
  unfolding getMissingFields_def missing_by_spec_def Let_def
  by (rule filter_cong) (simp_all add: field_missing_spec)

lemma spec_E: "missing_by_spec (scenario_E_draft ''Aug'') = [''arrival_date_month'']
   \<and> missing_by_spec (scenario_E_draft ''August'') = []"
  by code_simp

theorem getMissingFields_spec_witness:
  "getMissingFields (scenario_E_draft ''Aug'') = [''arrival_date_month'']
   \<and> getMissingFields (scenario_E_draft ''August'') = []"
  using getMissingFields_spec [of "scenario_E_draft ''Aug''"]
    getMissingFields_spec [of "scenario_E_draft ''August''"] spec_E
  by simp


text \<open>
  C10: the month-name rule applies to strings only: when \<open>arrival_date_month\<close> holds a
  value that is neither \<open>undefined\<close>, \<open>null\<close> nor a string, the field is not reported
  missing.
\<close>

theorem month_non_string_present:
  assumes "get_prop (nullish draft (JObj [])) ''arrival_date_month'' = v"
    and "v \<noteq> JUndefined" and "v \<noteq> JNull" and "typeof v \<noteq> ''string''"
  shows "''arrival_date_month'' \<notin> set (getMissingFields draft)"
  using assms
  by (cases v) (simp_all add: getMissingFields_def Let_def field_missing_def NUMBER_FIELDS_def BOOLEAN_FIELDS_def)

theorem month_non_string_present_witness:
  "get_prop (nullish (JObj [(''arrival_date_month'', JNum 8)]) (JObj [])) ''arrival_date_month'' = JNum 8
   \<and> typeof (JNum 8) \<noteq> ''string''
   \<and> ''arrival_date_month'' \<notin> set (getMissingFields (JObj [(''arrival_date_month'', JNum 8)]))"
  using month_non_string_present [of "JObj [(''arrival_date_month'', JNum 8)]" "JNum 8"]
  by (simp add: nullish_def)

section \<open>The shallow merge\<close>

lemma undec_dec: "undec (dec n) = n"
proof (induction n rule: dec.induct)
  case (1 n)
  show ?case
  proof (cases "n < 10")
    case True
    then show ?thesis by (simp add: undec_def)
  next
    case False
    have "n mod 10 < 10" by simp
    then have m: "(48 + n mod 10) mod 256 = 48 + n mod 10"
      by simp
    have "undec (dec n) = undec (dec (n div 10) @ [char_of (48 + n mod 10)])"
      using False by (subst dec.simps) simp
    also have "\<dots> = 10 * undec (dec (n div 10)) + n mod 10"
      by (simp add: undec_def m)
    also have "\<dots> = n"
      using 1 False by simp
    finally show ?thesis .
  qed
qed

lemma inj_dec: "inj dec"
  by (rule inj_on_inverseI [where g = undec]) (rule undec_dec)

lemma distinct_indices: "distinct (map dec [0..<n])"
  by (simp add: distinct_map inj_on_subset [OF inj_dec])

lemma distinct_own_props: "distinct (map fst (own_props v))"
  by (cases v) (simp_all add: distinct_indices)

lemma distinct_fold_update:
  "distinct (map fst al) \<Longrightarrow> distinct (map fst (fold (\<lambda>(k, v) acc. AList.update k v acc) ps al))"
  by (induction ps arbitrary: al) (auto simp: distinct_update)

lemma map_of_fold_update:
  "map_of (fold (\<lambda>(k, v) acc. AList.update k v acc) ps al) = map_of al ++ map_of (rev ps)"
  by (induction ps arbitrary: al) (auto simp: update_conv' map_of_append)

lemma fold_update_triv:
  "(\<And>k v. (k, v) \<in> set ps \<Longrightarrow> map_of al k = Some v)
     \<Longrightarrow> fold (\<lambda>(k, v) acc. AList.update k v acc) ps al = al"
  by (induction ps arbitrary: al) (auto simp: update_triv)

lemma map_of_rev_distinct: "distinct (map fst ps) \<Longrightarrow> map_of (rev ps) = map_of ps"
proof -
  assume d: "distinct (map fst ps)"
  have "map fst (rev ps) = rev (map fst ps)"
    by (rule rev_map [symmetric])
  with d have "distinct (map fst (rev ps))"
    by simp
  then show ?thesis
    using d by (subst map_of_inject_set) simp_all
qed

lemma map_of_spread:
  "map_of (fold (\<lambda>(k, v) acc. AList.update k v acc) (own_props p) al)
     = map_of al ++ map_of (own_props p)"
  by (simp add: map_of_fold_update map_of_rev_distinct distinct_own_props)

text \<open>
  C8: the shallow merge of a field delta into a draft is idempotent: merging the delta a
  second time changes nothing; and each field of the merged draft is the delta's value
  where the delta has the field, and the draft's own value otherwise.
\<close>

theorem merge_draft_idempotent:
  "merge_draft (merge_draft b p) p = merge_draft b p
   \<and> (\<forall>k. map_of (own_props (merge_draft b p)) k =
          (case map_of (own_props p) k of
             Some v \<Rightarrow> Some v
           | None \<Rightarrow> map_of (own_props (nullish b (JObj []))) k))"
proof -
  define upd where "upd = (\<lambda>(k :: string, v :: jsval) acc. AList.update k v acc)"
  define r where "r = fold upd (own_props p) (own_props (nullish b (JObj [])))"
  have merged: "merge_draft b p = JObj r"
    by (simp add: merge_draft_def spread_def r_def upd_def)
  have "distinct (map fst r)"
    unfolding r_def upd_def by (rule distinct_fold_update) (rule distinct_own_props)
  then have cj: "AList.clearjunk r = r"
    by (rule distinct_clearjunk_id)
  then have own: "own_props (JObj r) = r"
    by simp
  have lookup: "map_of r = map_of (own_props (nullish b (JObj []))) ++ map_of (own_props p)"
    unfolding r_def upd_def by (rule map_of_spread)
  have "fold upd (own_props p) r = r"
    unfolding upd_def
  proof (rule fold_update_triv)
    fix k v
    assume "(k, v) \<in> set (own_props p)"
    then have "map_of (own_props p) k = Some v"
      by (simp add: distinct_own_props)
    then show "map_of r k = Some v"
      by (simp add: lookup)
  qed
  then have "merge_draft (JObj r) p = JObj r"
    by (simp add: merge_draft_def spread_def nullish_def cj upd_def)
  moreover have "map_of (own_props (JObj r)) k =
      (case map_of (own_props p) k of
         Some v \<Rightarrow> Some v
       | None \<Rightarrow> map_of (own_props (nullish b (JObj []))) k)" for k
    by (simp only: own lookup map_add_def)
  ultimately show ?thesis
    by (simp only: merged) blast
qed

theorem merge_draft_idempotent_witness:
  "merge_draft (merge_draft (JObj [(''hotel'', JStr ''City Hotel''), (''adults'', JNum 1)])
                 (JObj [(''adults'', JNum 2), (''meal'', JStr ''BB'')]))
               (JObj [(''adults'', JNum 2), (''meal'', JStr ''BB'')])
     = JObj [(''hotel'', JStr ''City Hotel''), (''adults'', JNum 2), (''meal'', JStr ''BB'')]"
proof -
  have "merge_draft (JObj [(''hotel'', JStr ''City Hotel''), (''adults'', JNum 1)])
          (JObj [(''adults'', JNum 2), (''meal'', JStr ''BB'')])
        = JObj [(''hotel'', JStr ''City Hotel''), (''adults'', JNum 2), (''meal'', JStr ''BB'')]"
    by code_simp
  with merge_draft_idempotent
         [of "JObj [(''hotel'', JStr ''City Hotel''), (''adults'', JNum 1)]"
             "JObj [(''adults'', JNum 2), (''meal'', JStr ''BB'')]"]
  show ?thesis by simp
qed

section \<open>The confirmed branch\<close>

lemma store_calls_append: "store_calls (xs @ ys) = store_calls xs @ store_calls ys"
  by (induction xs rule: store_calls.induct) simp_all

lemma hotel_missing_unless_object:
  assumes "\<And>kvs. b \<noteq> JObj kvs"
  shows "field_missing (nullish b (JObj [])) ''hotel''"
proof (cases b)
  case (JObj kvs)
  with assms show ?thesis by blast
qed (simp_all add: nullish_def field_missing_def)

lemma complete_is_object:
  assumes "getMissingFields b = []"
  obtains kvs where "b = JObj kvs"
proof -
  have "\<exists>kvs. b = JObj kvs"
  proof (rule ccontr)
    assume "\<not> (\<exists>kvs. b = JObj kvs)"
    then have "field_missing (nullish b (JObj [])) ''hotel''"
      by (intro hotel_missing_unless_object) blast
    then have "''hotel'' \<in> set (getMissingFields b)"
      by (simp add: getMissingFields_def REQUIRED_FIELDS_def Let_def)
    with assms show False by simp
  qed
  then show thesis using that by blast
qed

lemma authorized_mutation_code:
  "authorized_mutation b =
     (if typeof (get_prop b ''id'') = ''string''
      then UpdateBooking (get_prop b ''id'') (JObj (AList.delete ''id'' (own_props b)))
      else CreateBooking b)"
  by (cases "get_prop b ''id''") (simp_all add: authorized_mutation_def)

lemma finalize_booking_eq:
  assumes "perform env (authorized_mutation b) (world s) = (out, w')"
  shows "finalize_booking env b s =
     (case out of
        Inr r \<Rightarrow>
          (Inr \<lparr>resp_message = JStr ''Your booking has been confirmed.'',
                resp_booking = (if truthy r \<and> typeof r = ''object'' then r else b),
                resp_toolTrace =
                  [if typeof (get_prop b ''id'') = ''string''
                   then \<lparr>trace_name = ''update_booking'',
                         trace_payload = JObj [(''id'', get_prop b ''id''),
                            (''patch'', JObj (AList.delete ''id'' (own_props b)))],
                         trace_result = r, trace_error = None\<rparr>
                   else \<lparr>trace_name = ''create_booking'',
                         trace_payload = JObj [(''payload'', b)],
                         trace_result = r, trace_error = None\<rparr>]\<rparr>,
           \<lparr>world = w', events = events s @ [StoreCall (authorized_mutation b) out]\<rparr>)
      | Inl e \<Rightarrow>
          (Inr \<lparr>resp_message = JStr ''I couldn't finalize the booking. Please try again.'',
                resp_booking = b,
                resp_toolTrace =
                  [\<lparr>trace_name = (if typeof (get_prop b ''id'') = ''string''
                                   then ''update_booking'' else ''create_booking''),
                     trace_payload = b, trace_result = JUndefined,
                     trace_error = Some (error_text e)\<rparr>]\<rparr>,
           \<lparr>world = w', events = events s @ [StoreCall (authorized_mutation b) out]\<rparr>))"
proof (cases "typeof (get_prop b ''id'') = ''string''")
  case True
  with assms show ?thesis
    by (cases out) (simp_all add: finalize_booking_def issue_def authorized_mutation_code Let_def)
next
  case False
  with assms show ?thesis
    by (cases out) (simp_all add: finalize_booking_def issue_def authorized_mutation_code Let_def)
qed

lemma POST_authorized:
  assumes "confirmed (messages body)" and "getMissingFields b = []"
    and "b = nullish (body_booking body) JNull"
  shows "POST env body w = finalize_booking env b \<lparr>world = w, events = []\<rparr>"
proof -
  obtain kvs where "b = JObj kvs" using assms(2) by (rule complete_is_object)
  then show ?thesis using assms by (simp add: POST_def Let_def)
qed

text \<open>
  C7: in an authorized turn (the latest message confirms and the draft has no missing
  field) exactly one store call is issued: the update of the draft's \<open>id\<close> with the
  draft minus \<open>id\<close> as the patch when the draft has a string \<open>id\<close>, the create with
  the whole draft otherwise.  When the store returns a booking, the reply is the
  confirmation message and the returned draft is that booking.
\<close>

theorem authorized_turn_mutates_once:
  assumes "confirmed (messages body)"
    and "getMissingFields b = []"
    and "b = nullish (body_booking body) JNull"
    and "perform env (authorized_mutation b) w = (out, w')"
  shows "events (snd (POST env body w)) = [StoreCall (authorized_mutation b) out]
     \<and> (\<forall>r. out = Inr (JObj r) \<longrightarrow>
           (\<exists>resp. fst (POST env body w) = Inr resp
              \<and> resp_message resp = JStr ''Your booking has been confirmed.''
              \<and> resp_booking resp = JObj r))"
proof -
  have "POST env body w = finalize_booking env b \<lparr>world = w, events = []\<rparr>"
    using assms(1-3) by (rule POST_authorized)
  then show ?thesis
    using finalize_booking_eq [of env b "\<lparr>world = w, events = []\<rparr>" out w'] assms(4)
    by (cases out) auto
qed


lemma stored_draft_complete: "getMissingFields stored_draft = []"
  by code_simp

lemma confirm_is_confirmed: "confirmed (user_says ''Yes, CONFIRM it'')"
  by code_simp

lemma stored_draft_mutation:
  "authorized_mutation stored_draft = UpdateBooking (JStr ''bk-1'') new_draft"
  by code_simp


theorem authorized_turn_mutates_once_witness:
  "confirmed (user_says ''Yes, CONFIRM it'')
   \<and> getMissingFields stored_draft = []
   \<and> events (snd (POST (scripted_env (says ''ok'') (says ''ok'') (Inr stored_draft))
                    \<lparr>messages = user_says ''Yes, CONFIRM it'', body_booking = stored_draft\<rparr> 0))
       = [StoreCall (UpdateBooking (JStr ''bk-1'') new_draft) (Inr stored_draft)]"
  using authorized_turn_mutates_once
    [of "\<lparr>messages = user_says ''Yes, CONFIRM it'', body_booking = stored_draft\<rparr>"
        stored_draft "scripted_env (says ''ok'') (says ''ok'') (Inr stored_draft)"
        0 "Inr stored_draft" "Suc 0",
     OF _ stored_draft_complete]
    confirm_is_confirmed stored_draft_complete stored_draft_mutation
  by (simp add: nullish_def stored_draft_def perform_def scripted_env_def)

text \<open>
  C5: when the store call of an authorized turn throws, the turn still returns a
  response: the generic failure reply, the prior draft unchanged, and a trace of one
  failure entry with the error's message.  The log holds that one call: no retry.
\<close>

theorem failed_mutation_keeps_draft:
  assumes "confirmed (messages body)"
    and "getMissingFields b = []"
    and "b = nullish (body_booking body) JNull"
    and "perform env (authorized_mutation b) w = (Inl e, w')"
  shows "POST env body w =
     (Inr \<lparr>resp_message = JStr ''I couldn't finalize the booking. Please try again.'',
           resp_booking = b,
           resp_toolTrace =
             [\<lparr>trace_name = (case authorized_mutation b of
                                UpdateBooking i p \<Rightarrow> ''update_booking''
                              | _ \<Rightarrow> ''create_booking''),
               trace_payload = b, trace_result = JUndefined,
               trace_error = Some (case e of Error m \<Rightarrow> m | NonError \<Rightarrow> ''Unknown error'')\<rparr>]\<rparr>,
      \<lparr>world = w', events = [StoreCall (authorized_mutation b) (Inl e)]\<rparr>)"
proof -
  have "POST env body w = finalize_booking env b \<lparr>world = w, events = []\<rparr>"
    using assms(1-3) by (rule POST_authorized)
  then show ?thesis
    using finalize_booking_eq [of env b "\<lparr>world = w, events = []\<rparr>" "Inl e" w'] assms(4)
    by (simp add: authorized_mutation_code error_text_def)
qed

theorem failed_mutation_keeps_draft_witness:
  "confirmed (user_says ''Yes, CONFIRM it'')
   \<and> getMissingFields stored_draft = []
   \<and> POST (scripted_env (says ''ok'') (says ''ok'') (Inl (Error ''Booking not found'')))
          \<lparr>messages = user_says ''Yes, CONFIRM it'', body_booking = stored_draft\<rparr> 0 =
     (Inr \<lparr>resp_message = JStr ''I couldn't finalize the booking. Please try again.'',
           resp_booking = stored_draft,
           resp_toolTrace =
             [\<lparr>trace_name = ''update_booking'', trace_payload = stored_draft,
               trace_result = JUndefined, trace_error = Some ''Booking not found''\<rparr>]\<rparr>,
      \<lparr>world = Suc 0,
        events = [StoreCall (UpdateBooking (JStr ''bk-1'') new_draft)
                    (Inl (Error ''Booking not found''))]\<rparr>)"
  using failed_mutation_keeps_draft
    [of "\<lparr>messages = user_says ''Yes, CONFIRM it'', body_booking = stored_draft\<rparr>"
        stored_draft
        "scripted_env (says ''ok'') (says ''ok'') (Inl (Error ''Booking not found''))"
        0 "Error ''Booking not found''" "Suc 0",
     OF _ stored_draft_complete]
    confirm_is_confirmed stored_draft_complete stored_draft_mutation
  by (simp add: nullish_def stored_draft_def perform_def scripted_env_def)

section \<open>The completion rounds\<close>

lemma mutations_append: "mutations (xs @ ys) = mutations xs @ mutations ys"
  by (simp add: mutations_def store_calls_append)

lemma proposed_mutation_append:
  "proposed_mutation (xs @ ys) = (proposed_mutation xs \<or> proposed_mutation ys)"
  by (induction xs rule: proposed_mutation.induct) simp_all

lemma draft_after_append: "draft_after b (xs @ ys) = draft_after (draft_after b xs) ys"
  by (induction b xs rule: draft_after.induct) simp_all

lemma store_events_propose_nothing: "list_all is_store_event evs \<Longrightarrow> \<not> proposed_mutation evs"
  by (induction evs rule: proposed_mutation.induct) simp_all

lemma issue_events:
  assumes "issue env c s = (out, s')"
  shows "events s' = events s @ [StoreCall c out]"
  using assms by (auto simp: issue_def Let_def split: prod.splits)

lemma complete_events:
  assumes "complete env cv s = (out, s')"
  shows "events s' = events s @ [Completed out]"
  using assms by (auto simp: complete_def Let_def split: prod.splits)

lemma run_tool_events:
  assumes "run_tool env fname args s = (out, s')"
  shows "\<exists>evs. events s' = events s @ evs \<and> list_all is_store_event evs
           \<and> (fname \<notin> set [''create_booking'', ''update_booking''] \<longrightarrow> mutations evs = [])
           \<and> draft_after b evs =
               (case out of
                  Inr r \<Rightarrow> if truthy r \<and> typeof r = ''object'' then r else b
                | Inl e \<Rightarrow> b)"
proof -
  consider (create) "fname = ''create_booking''" | (update) "fname = ''update_booking''"
    | (get) "fname = ''get_booking''"
    | (other) "fname \<noteq> ''create_booking''" "fname \<noteq> ''update_booking''" "fname \<noteq> ''get_booking''"
    by blast
  then show ?thesis
  proof cases
    case create
    with assms have "events s' = events s @ [StoreCall (CreateBooking (get_prop (JObj args) ''payload'')) out]"
      by (simp add: run_tool_def issue_events)
    then show ?thesis using create by (cases out) simp_all
  next
    case update
    with assms have "events s' = events s @ [StoreCall (UpdateBooking (get_prop (JObj args) ''id'') (get_prop (JObj args) ''patch'')) out]"
      by (simp add: run_tool_def issue_events)
    then show ?thesis using update by (cases out) simp_all
  next
    case get
    with assms have "events s' = events s @ [StoreCall (GetBooking (get_prop (JObj args) ''id'')) out]"
      by (simp add: run_tool_def issue_events)
    then show ?thesis by (cases out) (simp_all add: mutations_def)
  next
    case other
    with assms have "s' = s" "out = Inr JUndefined"
      by (simp_all add: run_tool_def)
    then show ?thesis by (simp add: mutations_def)
  qed
qed

lemma run_tool_calls_events:
  assumes "run_tool_calls env conf tcs bk tr cv s = (r, s')"
  shows "\<exists>evs. events s' = events s @ evs \<and> list_all is_store_event evs
           \<and> (\<not> conf \<longrightarrow> mutations evs = [])
           \<and> (case r of
                 Inl (Inl e) \<Rightarrow> True
               | Inl (Inr resp) \<Rightarrow>
                   \<not> conf
                   \<and> resp_message resp =
                       JStr ''I have the booking summary ready. Please say confirm to proceed.''
                   \<and> resp_booking resp = draft_after bk evs
               | Inr (bk', tr', cv') \<Rightarrow>
                   bk' = draft_after bk evs
                   \<and> (\<not> conf \<longrightarrow> \<not> list_ex names_mutation tcs))"
  using assms
proof (induction tcs arbitrary: bk tr cv s)
  case Nil
  then show ?case by (auto simp: mutations_def)
next
  case (Cons tc rest)
  show ?case
  proof (cases "arguments tc")
    case (Inl e)
    with Cons.prems show ?thesis by (auto simp: mutations_def)
  next
    case (Inr args)
    show ?thesis
    proof (cases "\<not> conf \<and> function_name tc \<in> set [''create_booking'', ''update_booking'']")
      case True
      with Cons.prems Inr show ?thesis by (auto simp: mutations_def)
    next
      case False
      obtain out s1 where rt: "run_tool env (function_name tc) args s = (out, s1)"
        by (cases "run_tool env (function_name tc) args s") blast
      from run_tool_events [OF rt, of bk]
      obtain evs1 where e1: "events s1 = events s @ evs1" "list_all is_store_event evs1"
        "function_name tc \<notin> set [''create_booking'', ''update_booking''] \<longrightarrow> mutations evs1 = []"
        "draft_after bk evs1 =
           (case out of Inr r \<Rightarrow> if truthy r \<and> typeof r = ''object'' then r else bk | Inl e \<Rightarrow> bk)"
        by blast
      have m1: "\<not> conf \<longrightarrow> mutations evs1 = []"
        using False e1(3) by blast
      have nm: "\<not> conf \<longrightarrow> \<not> names_mutation tc"
        using False by (auto simp: names_mutation_def)
      show ?thesis
      proof (cases out)
        case (Inl err)
        with Cons.prems Inr False rt
        have step: "run_tool_calls env conf rest bk
              (tr @ [\<lparr>trace_name = function_name tc, trace_payload = JObj args,
                      trace_result = JUndefined, trace_error = Some (error_text err)\<rparr>])
              cv s1 = (r, s')"
          by auto
        from Cons.IH [OF step] obtain evs2 where e2:
          "events s' = events s1 @ evs2" "list_all is_store_event evs2"
          "\<not> conf \<longrightarrow> mutations evs2 = []"
          "(case r of
              Inl (Inl e) \<Rightarrow> True
            | Inl (Inr resp) \<Rightarrow>
                \<not> conf
                \<and> resp_message resp =
                    JStr ''I have the booking summary ready. Please say confirm to proceed.''
                \<and> resp_booking resp = draft_after bk evs2
            | Inr (bk', tr', cv') \<Rightarrow>
                bk' = draft_after bk evs2 \<and> (\<not> conf \<longrightarrow> \<not> list_ex names_mutation rest))"
          by blast
        have d: "draft_after bk (evs1 @ evs2) = draft_after bk evs2"
          using e1(4) Inl by (simp add: draft_after_append)
        have "events s' = events s @ (evs1 @ evs2)"
          using e1(1) e2(1) by simp
        moreover have "list_all is_store_event (evs1 @ evs2)"
          using e1(2) e2(2) by simp
        moreover have "\<not> conf \<longrightarrow> mutations (evs1 @ evs2) = []"
          using m1 e2(3) by (simp add: mutations_append)
        moreover have "(case r of
              Inl (Inl e) \<Rightarrow> True
            | Inl (Inr resp) \<Rightarrow>
                \<not> conf
                \<and> resp_message resp =
                    JStr ''I have the booking summary ready. Please say confirm to proceed.''
                \<and> resp_booking resp = draft_after bk (evs1 @ evs2)
            | Inr (bk', tr', cv') \<Rightarrow>
                bk' = draft_after bk (evs1 @ evs2)
                \<and> (\<not> conf \<longrightarrow> \<not> list_ex names_mutation (tc # rest)))"
          using e2(4) nm by (simp only: d) (auto split: sum.splits prod.splits)
        ultimately show ?thesis by blast
      next
        case (Inr result)
        define bk1 where "bk1 = (if truthy result \<and> typeof result = ''object'' then result else bk)"
        from Cons.prems \<open>arguments tc = Inr args\<close> False rt Inr
        have step: "run_tool_calls env conf rest bk1
              (tr @ [\<lparr>trace_name = function_name tc, trace_payload = JObj args,
                      trace_result = result, trace_error = None\<rparr>])
              (cv @ [ToolResult (call_id tc) (nullish result (JObj []))]) s1 = (r, s')"
          by (auto simp: bk1_def)
        from Cons.IH [OF step] obtain evs2 where e2:
          "events s' = events s1 @ evs2" "list_all is_store_event evs2"
          "\<not> conf \<longrightarrow> mutations evs2 = []"
          "(case r of
              Inl (Inl e) \<Rightarrow> True
            | Inl (Inr resp) \<Rightarrow>
                \<not> conf
                \<and> resp_message resp =
                    JStr ''I have the booking summary ready. Please say confirm to proceed.''
                \<and> resp_booking resp = draft_after bk1 evs2
            | Inr (bk', tr', cv') \<Rightarrow>
                bk' = draft_after bk1 evs2 \<and> (\<not> conf \<longrightarrow> \<not> list_ex names_mutation rest))"
          by blast
        have d: "draft_after bk (evs1 @ evs2) = draft_after bk1 evs2"
          using e1(4) Inr by (simp add: draft_after_append bk1_def)
        have "events s' = events s @ (evs1 @ evs2)"
          using e1(1) e2(1) by simp
        moreover have "list_all is_store_event (evs1 @ evs2)"
          using e1(2) e2(2) by simp
        moreover have "\<not> conf \<longrightarrow> mutations (evs1 @ evs2) = []"
          using m1 e2(3) by (simp add: mutations_append)
        moreover have "(case r of
              Inl (Inl e) \<Rightarrow> True
            | Inl (Inr resp) \<Rightarrow>
                \<not> conf
                \<and> resp_message resp =
                    JStr ''I have the booking summary ready. Please say confirm to proceed.''
                \<and> resp_booking resp = draft_after bk (evs1 @ evs2)
            | Inr (bk', tr', cv') \<Rightarrow>
                bk' = draft_after bk (evs1 @ evs2)
                \<and> (\<not> conf \<longrightarrow> \<not> list_ex names_mutation (tc # rest)))"
          using e2(4) nm by (simp only: d) (auto split: sum.splits prod.splits)
        ultimately show ?thesis by blast
      qed
    qed
  qed
qed

lemma mutations_Completed [simp]: "mutations (Completed out # evs) = mutations evs"
  by (simp add: mutations_def)

lemma mutations_Nil [simp]: "mutations [] = []"
  by (simp add: mutations_def)

lemma rounds_unconfirmed:
  assumes "completion_rounds n env False bk tr cv s = (res, s')"
  shows "\<exists>evs. events s' = events s @ evs \<and> mutations evs = []
           \<and> (proposed_mutation evs \<longrightarrow>
                (case res of
                   Inl e \<Rightarrow> True
                 | Inr resp \<Rightarrow>
                     resp_message resp =
                       JStr ''I have the booking summary ready. Please say confirm to proceed.''
                     \<and> resp_booking resp = draft_after bk evs))"
  using assms
proof (induction n arbitrary: bk tr cv s)
  case 0
  then have "events s' = events s @ []" by simp
  then show ?case by (intro exI [of _ "[]"]) (simp add: mutations_def)
next
  case (Suc n)
  obtain out s1 where c: "complete env cv s = (out, s1)"
    by (cases "complete env cv s") blast
  have ev1: "events s1 = events s @ [Completed out]"
    using c by (rule complete_events)
  show ?case
  proof (cases out)
    case (Inl err)
    with Suc.prems c have "s' = s1" by simp
    with ev1 Inl show ?thesis by (intro exI [of _ "[Completed out]"]) simp
  next
    case (Inr msg)
    show ?thesis
    proof (cases "tool_calls msg = []")
      case True
      with Suc.prems c Inr have "s' = s1" by simp
      with ev1 Inr True show ?thesis by (intro exI [of _ "[Completed out]"]) simp
    next
      case False
      obtain r s2 where rtc: "run_tool_calls env False (tool_calls msg) bk tr cv s1 = (r, s2)"
        by (cases "run_tool_calls env False (tool_calls msg) bk tr cv s1") blast
      from run_tool_calls_events [OF rtc] obtain evs1 where e0:
        "events s2 = events s1 @ evs1" "list_all is_store_event evs1"
        "\<not> False \<longrightarrow> mutations evs1 = []"
        "(case r of
            Inl (Inl e) \<Rightarrow> True
          | Inl (Inr resp) \<Rightarrow>
              \<not> False
              \<and> resp_message resp =
                JStr ''I have the booking summary ready. Please say confirm to proceed.''
              \<and> resp_booking resp = draft_after bk evs1
          | Inr (bk', tr', cv') \<Rightarrow>
              bk' = draft_after bk evs1
              \<and> (\<not> False \<longrightarrow> \<not> list_ex names_mutation (tool_calls msg)))"
        by blast
      note e1 = e0(1) e0(2) e0(3) [simplified] e0(4)
      show ?thesis
      proof (cases r)
        case (Inl final)
        with Suc.prems c Inr False rtc have fin: "res = final" "s' = s2" by simp_all
        have "events s' = events s @ (Completed out # evs1)"
          using fin e1(1) ev1 by simp
        moreover have "mutations (Completed out # evs1) = []"
          using e1(3) by simp
        moreover have "(case res of
             Inl e \<Rightarrow> True
           | Inr resp \<Rightarrow>
               resp_message resp =
                 JStr ''I have the booking summary ready. Please say confirm to proceed.''
               \<and> resp_booking resp = draft_after bk (Completed out # evs1))"
          using e1(4) Inl fin by (cases final) simp_all
        ultimately show ?thesis by blast
      next
        case (Inr cont)
        obtain bk' tr' cv' where cont: "cont = (bk', tr', cv')"
          by (cases cont) blast
        from Suc.prems c \<open>out = Inr msg\<close> False rtc Inr cont
        have step: "completion_rounds n env False bk' tr' cv' s2 = (res, s')" by simp
        from Suc.IH [OF step] obtain evs2 where e2:
          "events s' = events s2 @ evs2" "mutations evs2 = []"
          "proposed_mutation evs2 \<longrightarrow>
             (case res of
                Inl e \<Rightarrow> True
              | Inr resp \<Rightarrow>
                  resp_message resp =
                    JStr ''I have the booking summary ready. Please say confirm to proceed.''
                  \<and> resp_booking resp = draft_after bk' evs2)"
          by blast
        have bk': "bk' = draft_after bk evs1" and quiet: "\<not> list_ex names_mutation (tool_calls msg)"
          using e1(4) Inr cont by simp_all
        have p: "proposed_mutation (Completed out # evs1 @ evs2) = proposed_mutation evs2"
          using quiet store_events_propose_nothing [OF e1(2)] \<open>out = Inr msg\<close>
          by (simp add: proposed_mutation_append)
        have d: "draft_after bk (Completed out # evs1 @ evs2) = draft_after bk' evs2"
          using bk' by (simp add: draft_after_append)
        have "events s' = events s @ (Completed out # evs1 @ evs2)"
          using e2(1) e1(1) ev1 by simp
        moreover have "mutations (Completed out # evs1 @ evs2) = []"
          using e1(3) e2(2) by (simp add: mutations_append)
        moreover have "proposed_mutation (Completed out # evs1 @ evs2) \<longrightarrow>
             (case res of
                Inl e \<Rightarrow> True
              | Inr resp \<Rightarrow>
                  resp_message resp =
                    JStr ''I have the booking summary ready. Please say confirm to proceed.''
                  \<and> resp_booking resp = draft_after bk (Completed out # evs1 @ evs2))"
          using e2(3) by (simp only: p d)
        ultimately show ?thesis by blast
      qed
    qed
  qed
qed

lemma POST_unconfirmed:
  assumes "\<not> confirmed (messages body)"
  shows "POST env body w =
     completion_rounds 2 env False (nullish (body_booking body) JNull) []
       (SystemPrompt (nullish (nullish (body_booking body) JNull) (JObj []))
          # map Chat (messages body))
       \<lparr>world = w, events = []\<rparr>"
  using assms by (simp add: POST_def Let_def)



text \<open>
  C6, as the code has it: when the latest message lacks the confirmation token and a
  completion of the turn proposes a tool call naming \<open>create_booking\<close> or
  \<open>update_booking\<close>, a turn that returns a response returns the "say confirm" reply, has
  issued no create or update call, and returns the draft as it stood at that point.
\<close>

theorem gate_short_circuit:
  assumes "\<not> confirmed (messages body)"
    and "POST env body w = (Inr resp, s)"
    and "proposed_mutation (events s)"
  shows "resp_message resp = JStr ''I have the booking summary ready. Please say confirm to proceed.''
     \<and> mutations (events s) = []
     \<and> resp_booking resp = draft_after (nullish (body_booking body) JNull) (events s)"
proof -
  have "completion_rounds 2 env False (nullish (body_booking body) JNull) []
       (SystemPrompt (nullish (nullish (body_booking body) JNull) (JObj []))
          # map Chat (messages body))
       \<lparr>world = w, events = []\<rparr> = (Inr resp, s)"
    using assms(2) by (simp only: POST_unconfirmed [OF assms(1)])
  from rounds_unconfirmed [OF this] assms(3) show ?thesis
    by auto
qed

lemma looks_good_unconfirmed: "\<not> confirmed (user_says ''looks good'')"
  by code_simp



lemma scenario_C:
  "POST (scripted_env (calls_tool ''create_booking'' [(''payload'', new_draft)]) (says ''ok'')
           (Inr stored_draft))
        \<lparr>messages = user_says ''looks good'', body_booking = new_draft\<rparr> 0
   = (Inr \<lparr>resp_message = JStr ''I have the booking summary ready. Please say confirm to proceed.'',
           resp_booking = new_draft, resp_toolTrace = []\<rparr>,
      \<lparr>world = Suc 0,
        events = [Completed (Inr (calls_tool ''create_booking'' [(''payload'', new_draft)]))]\<rparr>)"
  by code_simp

theorem gate_short_circuit_witness:
  "\<not> confirmed (user_says ''looks good'')
   \<and> proposed_mutation
        [Completed (Inr (calls_tool ''create_booking'' [(''payload'', new_draft)]))]
   \<and> mutations [Completed (Inr (calls_tool ''create_booking'' [(''payload'', new_draft)]))] = []
   \<and> new_draft = draft_after (nullish new_draft JNull)
        [Completed (Inr (calls_tool ''create_booking'' [(''payload'', new_draft)]))]"
  using gate_short_circuit [OF _ scenario_C] looks_good_unconfirmed
  by (simp add: calls_tool_def names_mutation_def)

text \<open>
  The claim C6 as stated fails: the turn below is not authorized (the draft is empty),
  the model proposes \<open>create_booking\<close>, and because the user said "confirm" the call is
  made and the turn goes on to the next completion.
\<close>

theorem gate_short_circuit_counterexample:
  "getMissingFields (nullish JNull JNull) \<noteq> []
   \<and> POST (scripted_env (calls_tool ''create_booking'' [(''payload'', JObj [])]) (says ''ok'')
           (Inr stored_draft))
        \<lparr>messages = user_says ''confirm'', body_booking = JNull\<rparr> 0
     = (Inr \<lparr>resp_message = JStr ''ok'', resp_booking = stored_draft,
             resp_toolTrace =
               [\<lparr>trace_name = ''create_booking'',
                 trace_payload = JObj [(''payload'', JObj [])],
                 trace_result = stored_draft, trace_error = None\<rparr>]\<rparr>,
        \<lparr>world = 3,
          events =
            [Completed (Inr (calls_tool ''create_booking'' [(''payload'', JObj [])])),
             StoreCall (CreateBooking (JObj [])) (Inr stored_draft),
             Completed (Inr (says ''ok''))]\<rparr>)"
  by code_simp

section \<open>The informational reply\<close>

lemma gate_needs_proposal:
  assumes "run_tool_calls env conf tcs bk tr cv s = (Inl (Inr resp), s')"
  shows "list_ex names_mutation tcs"
  using assms
proof (induction tcs arbitrary: bk tr cv s)
  case Nil
  then show ?case by simp
next
  case (Cons tc rest)
  show ?case
  proof (cases "arguments tc")
    case (Inl e)
    with Cons.prems show ?thesis by simp
  next
    case (Inr args)
    show ?thesis
    proof (cases "\<not> conf \<and> function_name tc \<in> set [''create_booking'', ''update_booking'']")
      case True
      then show ?thesis by (simp add: names_mutation_def)
    next
      case False
      obtain out s1 where rt: "run_tool env (function_name tc) args s = (out, s1)"
        by (cases "run_tool env (function_name tc) args s") blast
      with Cons.prems Inr False
      have "\<exists>bk1 tr1 cv1. run_tool_calls env conf rest bk1 tr1 cv1 s1 = (Inl (Inr resp), s')"
        by (cases out) (auto intro!: exI)
      with Cons.IH show ?thesis by auto
    qed
  qed
qed

lemma tool_rounds_append: "tool_rounds (xs @ ys) = tool_rounds xs + tool_rounds ys"
  by (induction xs rule: tool_rounds.induct) simp_all

lemma store_events_no_round: "list_all is_store_event evs \<Longrightarrow> tool_rounds evs = 0"
  by (induction evs rule: tool_rounds.induct) simp_all

lemma last_store_event:
  assumes "list_all is_store_event evs" and "evs \<noteq> []"
  shows "last evs \<noteq> Completed out"
proof -
  have "last evs \<in> set evs" using assms(2) by simp
  with assms(1) have "is_store_event (last evs)" by (simp add: list_all_iff)
  then show ?thesis by (cases "last evs") auto
qed

lemma ends_with_content_skip:
  assumes "ends_with_content (Completed (Inr msg) # evs1 @ evs2) m"
    and "tool_calls msg \<noteq> []" and "list_all is_store_event evs1"
  shows "ends_with_content evs2 m"
proof (cases "evs2 = []")
  case True
  show ?thesis
  proof (cases "evs1 = []")
    case True
    with \<open>evs2 = []\<close> assms(1,2) show ?thesis by (simp add: ends_with_content_def)
  next
    case False
    with \<open>evs2 = []\<close> assms(1) last_store_event [OF assms(3) False] show ?thesis
      by (simp add: ends_with_content_def)
  qed
next
  case False
  with assms(1) show ?thesis by (simp add: ends_with_content_def)
qed

lemma rounds_content:
  assumes "completion_rounds n env conf bk tr cv s = (res, s')"
  shows "\<exists>evs. events s' = events s @ evs
           \<and> (\<forall>m. ends_with_content evs m \<longrightarrow>
                 (\<exists>tr'. res = content_reply env (extracted m) (draft_after bk evs) tr'))"
  using assms
proof (induction n arbitrary: bk tr cv s)
  case 0
  then have "events s' = events s @ []" by simp
  then show ?case by (intro exI [of _ "[]"]) (simp add: ends_with_content_def)
next
  case (Suc n)
  obtain out s1 where c: "complete env cv s = (out, s1)"
    by (cases "complete env cv s") blast
  have ev1: "events s1 = events s @ [Completed out]"
    using c by (rule complete_events)
  show ?case
  proof (cases out)
    case (Inl err)
    with Suc.prems c have "s' = s1" by simp
    with ev1 Inl show ?thesis
      by (intro exI [of _ "[Completed out]"]) (simp add: ends_with_content_def)
  next
    case (Inr msg)
    show ?thesis
    proof (cases "tool_calls msg = []")
      case True
      with Suc.prems c Inr
      have "s' = s1" "res = content_reply env (extracted msg) bk tr"
        by simp_all
      with ev1 Inr show ?thesis
        by (intro exI [of _ "[Completed out]"]) (auto simp: ends_with_content_def)
    next
      case False
      obtain r s2 where rtc: "run_tool_calls env conf (tool_calls msg) bk tr cv s1 = (r, s2)"
        by (cases "run_tool_calls env conf (tool_calls msg) bk tr cv s1") blast
      from run_tool_calls_events [OF rtc] obtain evs1 where e1:
        "events s2 = events s1 @ evs1" "list_all is_store_event evs1"
        "(case r of
            Inl (Inl e) \<Rightarrow> True
          | Inl (Inr resp) \<Rightarrow>
              \<not> conf
              \<and> resp_message resp =
                JStr ''I have the booking summary ready. Please say confirm to proceed.''
              \<and> resp_booking resp = draft_after bk evs1
          | Inr (bk', tr', cv') \<Rightarrow>
              bk' = draft_after bk evs1
              \<and> (\<not> conf \<longrightarrow> \<not> list_ex names_mutation (tool_calls msg)))"
        by blast
      show ?thesis
      proof (cases r)
        case (Inl final)
        with Suc.prems c \<open>out = Inr msg\<close> False rtc have fin: "s' = s2" by simp
        have "events s' = events s @ (Completed out # evs1)"
          using fin e1(1) ev1 by simp
        moreover have "\<not> ends_with_content (Completed out # evs1) m" for m
          using ends_with_content_skip [of msg evs1 "[]" m] False e1(2) \<open>out = Inr msg\<close>
          by (auto simp: ends_with_content_def)
        ultimately show ?thesis by blast
      next
        case (Inr cont)
        obtain bk' tr' cv' where cont: "cont = (bk', tr', cv')"
          by (cases cont) blast
        from Suc.prems c \<open>out = Inr msg\<close> False rtc Inr cont
        have step: "completion_rounds n env conf bk' tr' cv' s2 = (res, s')" by simp
        from Suc.IH [OF step] obtain evs2 where e2:
          "events s' = events s2 @ evs2"
          "\<forall>m. ends_with_content evs2 m \<longrightarrow>
             (\<exists>tr'. res = content_reply env (extracted m) (draft_after bk' evs2) tr')"
          by blast
        have bk': "bk' = draft_after bk evs1"
          using e1(3) Inr cont by simp
        have d: "draft_after bk (Completed out # evs1 @ evs2) = draft_after bk' evs2"
          using bk' by (simp add: draft_after_append)
        have "events s' = events s @ (Completed out # evs1 @ evs2)"
          using e2(1) e1(1) ev1 by simp
        moreover have "\<exists>tr'. res = content_reply env (extracted m)
                         (draft_after bk (Completed out # evs1 @ evs2)) tr'"
          if "ends_with_content (Completed out # evs1 @ evs2) m" for m
        proof -
          from that have "ends_with_content evs2 m"
            using ends_with_content_skip [of msg evs1 evs2 m] False e1(2) \<open>out = Inr msg\<close>
            by simp
          with e2(2) show ?thesis by (simp only: d)
        qed
        ultimately show ?thesis by blast
      qed
    qed
  qed
qed

lemma rounds_exhausted:
  assumes "completion_rounds n env conf bk tr cv s = (Inr resp, s')"
  shows "\<exists>evs. events s' = events s @ evs \<and> tool_rounds evs \<le> n
           \<and> (tool_rounds evs = n \<and> (conf \<or> \<not> proposed_mutation evs) \<longrightarrow>
                 resp_message resp = JStr ''Let's continue the booking details.''
                 \<and> resp_booking resp = draft_after bk evs)"
  using assms
proof (induction n arbitrary: bk tr cv s)
  case 0
  then have "events s' = events s @ []"
    "resp_message resp = JStr ''Let's continue the booking details.''" "resp_booking resp = bk"
    by auto
  then show ?case by (intro exI [of _ "[]"]) simp
next
  case (Suc n)
  obtain out s1 where c: "complete env cv s = (out, s1)"
    by (cases "complete env cv s") blast
  have ev1: "events s1 = events s @ [Completed out]"
    using c by (rule complete_events)
  show ?case
  proof (cases out)
    case (Inl err)
    with Suc.prems c show ?thesis by simp
  next
    case (Inr msg)
    show ?thesis
    proof (cases "tool_calls msg = []")
      case True
      with Suc.prems c Inr have "s' = s1" by simp
      with ev1 Inr True show ?thesis
        by (intro exI [of _ "[Completed out]"]) simp
    next
      case False
      obtain r s2 where rtc: "run_tool_calls env conf (tool_calls msg) bk tr cv s1 = (r, s2)"
        by (cases "run_tool_calls env conf (tool_calls msg) bk tr cv s1") blast
      from run_tool_calls_events [OF rtc] obtain evs1 where e1:
        "events s2 = events s1 @ evs1" "list_all is_store_event evs1"
        "(case r of
            Inl (Inl e) \<Rightarrow> True
          | Inl (Inr resp) \<Rightarrow>
              \<not> conf
              \<and> resp_message resp =
                JStr ''I have the booking summary ready. Please say confirm to proceed.''
              \<and> resp_booking resp = draft_after bk evs1
          | Inr (bk', tr', cv') \<Rightarrow>
              bk' = draft_after bk evs1
              \<and> (\<not> conf \<longrightarrow> \<not> list_ex names_mutation (tool_calls msg)))"
        by blast
      have r1: "tool_rounds (Completed out # evs1) = Suc 0"
        using False \<open>out = Inr msg\<close> store_events_no_round [OF e1(2)] by simp
      show ?thesis
      proof (cases r)
        case (Inl final)
        with Suc.prems c \<open>out = Inr msg\<close> False rtc
        have fin: "final = Inr resp" "s' = s2" by simp_all
        have gate: "\<not> conf" "list_ex names_mutation (tool_calls msg)"
          using e1(3) Inl fin gate_needs_proposal [of env conf "tool_calls msg" bk tr cv s1 resp s2] rtc
          by simp_all
        then have "proposed_mutation (Completed out # evs1)"
          using \<open>out = Inr msg\<close> by simp
        moreover have "events s' = events s @ (Completed out # evs1)"
          using fin e1(1) ev1 by simp
        ultimately show ?thesis
          using r1 gate(1) by (intro exI [of _ "Completed out # evs1"]) simp
      next
        case (Inr cont)
        obtain bk' tr' cv' where cont: "cont = (bk', tr', cv')"
          by (cases cont) blast
        from Suc.prems c \<open>out = Inr msg\<close> False rtc Inr cont
        have step: "completion_rounds n env conf bk' tr' cv' s2 = (Inr resp, s')" by simp
        from Suc.IH [OF step] obtain evs2 where e2:
          "events s' = events s2 @ evs2" "tool_rounds evs2 \<le> n"
          "tool_rounds evs2 = n \<and> (conf \<or> \<not> proposed_mutation evs2) \<longrightarrow>
             resp_message resp = JStr ''Let's continue the booking details.''
             \<and> resp_booking resp = draft_after bk' evs2"
          by blast
        have bk': "bk' = draft_after bk evs1"
          using e1(3) Inr cont by simp
        have d: "draft_after bk (Completed out # evs1 @ evs2) = draft_after bk' evs2"
          using bk' by (simp add: draft_after_append)
        have t: "tool_rounds (Completed out # evs1 @ evs2) = Suc (tool_rounds evs2)"
          using r1 tool_rounds_append [of "Completed out # evs1" evs2] by simp
        have p: "proposed_mutation evs2 \<Longrightarrow> proposed_mutation (Completed out # evs1 @ evs2)"
          using \<open>out = Inr msg\<close> by (simp add: proposed_mutation_append)
        have "events s' = events s @ (Completed out # evs1 @ evs2)"
          using e2(1) e1(1) ev1 by simp
        moreover have "tool_rounds (Completed out # evs1 @ evs2) \<le> Suc n"
          using t e2(2) by simp
        moreover have "tool_rounds (Completed out # evs1 @ evs2) = Suc n
             \<and> (conf \<or> \<not> proposed_mutation (Completed out # evs1 @ evs2)) \<longrightarrow>
             resp_message resp = JStr ''Let's continue the booking details.''
             \<and> resp_booking resp = draft_after bk (Completed out # evs1 @ evs2)"
          using e2(3) p by (simp only: t d) blast
        ultimately show ?thesis by blast
      qed
    qed
  qed
qed

lemma labels_of_filtered:
  assumes "\<And>f l. (f, l) \<in> set xs \<Longrightarrow> g f = h l"
  shows "map g (filter P (map fst xs)) = map h (map snd (filter (\<lambda>(f, l). P f) xs))"
  using assms by (induction xs) auto

lemma required_fields_labelled: "REQUIRED_FIELDS = map fst FIELD_LABELS"
  by (simp add: REQUIRED_FIELDS_def FIELD_LABELS_def)

lemma distinct_labels: "distinct (map fst FIELD_LABELS)"
  by code_simp

lemma own_field_label:
  assumes "(f, l) \<in> set FIELD_LABELS"
  shows "field_label text_of inherited (JStr f) = l"
proof -
  have "map_of FIELD_LABELS f = Some l"
    using assms distinct_labels by simp
  then show ?thesis by (simp add: field_label_def)
qed

lemma missing_message_lists_labels:
  "\<exists>prefix. buildMissingMessage text_of inherited (map JStr (getMissingFields b)) b =
     prefix @ '' To complete it, please provide:'' @ [CHR 0x0A]
       @ join [CHR 0x0A] (map (\<lambda>l. ''- '' @ l) (missing_labels b))"
proof -
  have "map (\<lambda>f. ''- '' @ field_label text_of inherited (JStr f)) (getMissingFields b)
        = map (\<lambda>l. ''- '' @ l) (missing_labels b)"
    unfolding getMissingFields_def missing_labels_def Let_def required_fields_labelled
    by (rule labels_of_filtered) (simp add: own_field_label)
  then have "map (\<lambda>field. ''- '' @ field_label text_of inherited field)
               (map JStr (getMissingFields b))
        = map (\<lambda>l. ''- '' @ l) (missing_labels b)"
    by (simp add: comp_def)
  then show ?thesis
    by (simp add: buildMissingMessage_def Let_def)
qed

lemma content_reply_Inr:
  assumes r: "content_reply env parsed bk tr = Inr resp"
    and merged: "merged =
      (if truthy (get_prop parsed ''draft'') \<and> typeof (get_prop parsed ''draft'') = ''object''
       then merge_draft bk (get_prop parsed ''draft'') else bk)"
  shows "resp_booking resp = merged"
    and "get_prop parsed ''missing_fields'' = JArr entries \<Longrightarrow> entries \<noteq> [] \<Longrightarrow>
           resp_message resp =
             JStr (buildMissingMessage (to_text env) (inherited_text env) entries merged)"
    and "\<not> truthy (optional_length (get_prop parsed ''missing_fields'')) \<Longrightarrow>
           getMissingFields merged = [] \<Longrightarrow>
           resp_message resp = nullish (get_prop parsed ''message'') (JStr [])"
    and "\<not> truthy (optional_length (get_prop parsed ''missing_fields'')) \<Longrightarrow>
           getMissingFields merged \<noteq> [] \<Longrightarrow>
           resp_message resp =
             JStr (buildMissingMessage (to_text env) (inherited_text env)
                     (map JStr (getMissingFields merged)) merged)"
    and "truthy (optional_length (get_prop parsed ''missing_fields'')) \<Longrightarrow>
           \<not> greater_than_zero (positive env) (length_of (get_prop parsed ''missing_fields'')) \<Longrightarrow>
           resp_message resp = nullish (get_prop parsed ''message'') (JStr [])"
proof -
  have ok: "parsed \<noteq> JUndefined" "parsed \<noteq> JNull"
    using r by (auto simp: content_reply_def)
  define mf where "mf =
     (if truthy (optional_length (get_prop parsed ''missing_fields''))
      then get_prop parsed ''missing_fields''
      else JArr (map JStr (getMissingFields merged)))"
  have eq: "Inr resp =
     (if greater_than_zero (positive env) (length_of mf)
      then (case mf of
              JArr entries \<Rightarrow>
                Inr \<lparr>resp_message =
                       JStr (buildMissingMessage (to_text env) (inherited_text env) entries merged),
                     resp_booking = merged, resp_toolTrace = tr\<rparr>
            | _ \<Rightarrow> Inl (Error ''missingFields.map is not a function''))
      else Inr \<lparr>resp_message = nullish (get_prop parsed ''message'') (JStr []),
                 resp_booking = merged, resp_toolTrace = tr\<rparr>)"
    using r ok unfolding content_reply_def mf_def merged Let_def by simp
  show "resp_booking resp = merged"
    using eq by (cases mf) (auto split: if_splits)
  show "resp_message resp =
          JStr (buildMissingMessage (to_text env) (inherited_text env) entries merged)"
    if "get_prop parsed ''missing_fields'' = JArr entries" "entries \<noteq> []"
  proof -
    have "mf = JArr entries"
      using that by (simp add: mf_def optional_length_def)
    with eq that(2) show ?thesis by simp
  qed
  show "resp_message resp = nullish (get_prop parsed ''message'') (JStr [])"
    if "\<not> truthy (optional_length (get_prop parsed ''missing_fields''))"
      "getMissingFields merged = []"
  proof -
    have "mf = JArr []" using that by (simp add: mf_def)
    with eq show ?thesis by simp
  qed
  show "resp_message resp =
          JStr (buildMissingMessage (to_text env) (inherited_text env)
                  (map JStr (getMissingFields merged)) merged)"
    if "\<not> truthy (optional_length (get_prop parsed ''missing_fields''))"
      "getMissingFields merged \<noteq> []"
  proof -
    have "mf = JArr (map JStr (getMissingFields merged))" using that by (simp add: mf_def)
    with eq that(2) show ?thesis by simp
  qed
  show "resp_message resp = nullish (get_prop parsed ''message'') (JStr [])"
    if "truthy (optional_length (get_prop parsed ''missing_fields''))"
      "\<not> greater_than_zero (positive env) (length_of (get_prop parsed ''missing_fields''))"
  proof -
    have "mf = get_prop parsed ''missing_fields''" using that by (simp add: mf_def)
    with eq that(2) show ?thesis by simp
  qed
qed

lemma POST_events_cases:
  obtains (finalized) c out where "events (snd (POST env body w)) = [StoreCall c out]"
  | (rounds) conf where
      "(conf \<longleftrightarrow> confirmed (messages body))"
      "POST env body w =
         completion_rounds 2 env conf (nullish (body_booking body) JNull) []
           (SystemPrompt (nullish (nullish (body_booking body) JNull) (JObj []))
              # map Chat (messages body))
           \<lparr>world = w, events = []\<rparr>"
proof (cases "confirmed (messages body) \<and> truthy (nullish (body_booking body) JNull)
               \<and> length (getMissingFields (nullish (body_booking body) JNull)) = 0")
  case True
  define b where "b = nullish (body_booking body) JNull"
  obtain out w' where pf: "perform env (authorized_mutation b) w = (out, w')"
    by (cases "perform env (authorized_mutation b) w") blast
  have "POST env body w = finalize_booking env b \<lparr>world = w, events = []\<rparr>"
    using True by (simp add: POST_def Let_def b_def)
  with finalize_booking_eq [of env b "\<lparr>world = w, events = []\<rparr>" out w'] pf
  have "events (snd (POST env body w)) = [StoreCall (authorized_mutation b) out]"
    by (cases out) simp_all
  then show thesis by (rule finalized)
next
  case False
  then have "POST env body w =
         completion_rounds 2 env (confirmed (messages body)) (nullish (body_booking body) JNull) []
           (SystemPrompt (nullish (nullish (body_booking body) JNull) (JObj []))
              # map Chat (messages body))
           \<lparr>world = w, events = []\<rparr>"
    by (auto simp: POST_def Let_def)
  then show thesis by (intro rounds [of "confirmed (messages body)"]) simp_all
qed

text \<open>
  The ways a turn returns a response: from the confirmed branch after its one store call,
  from a completion without tool calls, after two rounds of tool calls, or from the
  confirmation gate.
\<close>

lemma ends_with_content_later:
  "ends_with_content evs m \<Longrightarrow> ends_with_content (xs @ evs) m"
  by (simp add: ends_with_content_def)

lemma rounds_cases:
  assumes "completion_rounds n env conf bk tr cv s = (Inr resp, s')"
  shows "\<exists>evs. events s' = events s @ evs
           \<and> ((\<exists>m. ends_with_content evs m) \<or> tool_rounds evs = n
                \<or> (\<not> conf \<and> proposed_mutation evs))"
  using assms
proof (induction n arbitrary: bk tr cv s)
  case 0
  then have "events s' = events s @ []" by auto
  then show ?case by (intro exI [of _ "[]"]) simp
next
  case (Suc n)
  obtain out s1 where c: "complete env cv s = (out, s1)"
    by (cases "complete env cv s") blast
  have ev1: "events s1 = events s @ [Completed out]"
    using c by (rule complete_events)
  show ?case
  proof (cases out)
    case (Inl err)
    with Suc.prems c show ?thesis by simp
  next
    case (Inr msg)
    show ?thesis
    proof (cases "tool_calls msg = []")
      case True
      with Suc.prems c Inr have "s' = s1" by simp
      moreover have "ends_with_content [Completed out] msg"
        using Inr True by (simp add: ends_with_content_def)
      ultimately show ?thesis
        using ev1 by (intro exI [of _ "[Completed out]"]) blast
    next
      case False
      obtain r s2 where rtc: "run_tool_calls env conf (tool_calls msg) bk tr cv s1 = (r, s2)"
        by (cases "run_tool_calls env conf (tool_calls msg) bk tr cv s1") blast
      from run_tool_calls_events [OF rtc] obtain evs1 where e1:
        "events s2 = events s1 @ evs1" "list_all is_store_event evs1"
        "(case r of
            Inl (Inl e) \<Rightarrow> True
          | Inl (Inr resp) \<Rightarrow>
              \<not> conf
              \<and> resp_message resp =
                JStr ''I have the booking summary ready. Please say confirm to proceed.''
              \<and> resp_booking resp = draft_after bk evs1
          | Inr (bk', tr', cv') \<Rightarrow>
              bk' = draft_after bk evs1
              \<and> (\<not> conf \<longrightarrow> \<not> list_ex names_mutation (tool_calls msg)))"
        by blast
      have r1: "tool_rounds (Completed out # evs1) = Suc 0"
        using False \<open>out = Inr msg\<close> store_events_no_round [OF e1(2)] by simp
      show ?thesis
      proof (cases r)
        case (Inl final)
        with Suc.prems c \<open>out = Inr msg\<close> False rtc
        have fin: "final = Inr resp" "s' = s2" by simp_all
        have gate: "\<not> conf" "list_ex names_mutation (tool_calls msg)"
          using e1(3) Inl fin gate_needs_proposal [of env conf "tool_calls msg" bk tr cv s1 resp s2] rtc
          by simp_all
        then have "proposed_mutation (Completed out # evs1)"
          using \<open>out = Inr msg\<close> by simp
        moreover have "events s' = events s @ (Completed out # evs1)"
          using fin e1(1) ev1 by simp
        ultimately show ?thesis
          using gate(1) by (intro exI [of _ "Completed out # evs1"]) simp
      next
        case (Inr cont)
        obtain bk' tr' cv' where cont: "cont = (bk', tr', cv')"
          by (cases cont) blast
        from Suc.prems c \<open>out = Inr msg\<close> False rtc Inr cont
        have step: "completion_rounds n env conf bk' tr' cv' s2 = (Inr resp, s')" by simp
        from Suc.IH [OF step] obtain evs2 where e2:
          "events s' = events s2 @ evs2"
          "(\<exists>m. ends_with_content evs2 m) \<or> tool_rounds evs2 = n
             \<or> (\<not> conf \<and> proposed_mutation evs2)"
          by blast
        have t: "tool_rounds (Completed out # evs1 @ evs2) = Suc (tool_rounds evs2)"
          using r1 tool_rounds_append [of "Completed out # evs1" evs2] by simp
        have p: "proposed_mutation evs2 \<Longrightarrow> proposed_mutation (Completed out # evs1 @ evs2)"
          using \<open>out = Inr msg\<close> by (simp add: proposed_mutation_append)
        have w: "ends_with_content evs2 m \<Longrightarrow> ends_with_content (Completed out # evs1 @ evs2) m"
          for m
          using ends_with_content_later [of evs2 m "Completed out # evs1"] by simp
        have "events s' = events s @ (Completed out # evs1 @ evs2)"
          using e2(1) e1(1) ev1 by simp
        moreover have "(\<exists>m. ends_with_content (Completed out # evs1 @ evs2) m)
             \<or> tool_rounds (Completed out # evs1 @ evs2) = Suc n
             \<or> (\<not> conf \<and> proposed_mutation (Completed out # evs1 @ evs2))"
          using e2(2) p w t by blast
        ultimately show ?thesis by blast
      qed
    qed
  qed
qed

lemma responding_turn_cases:
  assumes "POST env body w = (Inr resp, s)"
  shows "(\<exists>c out. events s = [StoreCall c out])
         \<or> (\<exists>m. ends_with_content (events s) m)
         \<or> (tool_rounds (events s) = 2
             \<and> (confirmed (messages body) \<or> \<not> proposed_mutation (events s)))
         \<or> (\<not> confirmed (messages body) \<and> proposed_mutation (events s))"
proof (cases rule: POST_events_cases [of env body w])
  case (finalized c out)
  with assms show ?thesis by simp
next
  case (rounds conf)
  with assms have "completion_rounds 2 env conf (nullish (body_booking body) JNull) []
           (SystemPrompt (nullish (nullish (body_booking body) JNull) (JObj []))
              # map Chat (messages body))
           \<lparr>world = w, events = []\<rparr> = (Inr resp, s)"
    by simp
  from rounds_cases [OF this] rounds(1) show ?thesis
    by auto
qed

text \<open>
  C4, as the code has it, for a turn that returns a response.  When the turn ends with a
  completion without tool calls, the response carries the draft merged with the model's
  draft delta, and its reply follows the content of that completion: for a non-empty array
  of \<open>missing_fields\<close> sent by the model, the generated prompt over the entries of that
  array; when \<open>missing_fields\<close> has no truthy length, the generated prompt that lists the
  label of each missing field of the merged draft in catalog order, or the model's message
  when that draft has no missing field; when the length is truthy but not greater than
  zero, the model's message.  When both completions of the turn carry tool calls and the
  confirmation gate has not fired, the reply is the fixed sentence that continues the
  conversation, whatever the draft is missing.
\<close>

theorem informational_reply:
  assumes "POST env body w = (Inr resp, s)"
  shows "(\<forall>m. ends_with_content (events s) m \<longrightarrow>
            resp_booking resp =
              (if truthy (get_prop (extracted m) ''draft'')
                  \<and> typeof (get_prop (extracted m) ''draft'') = ''object''
               then merge_draft (draft_after (nullish (body_booking body) JNull) (events s))
                      (get_prop (extracted m) ''draft'')
               else draft_after (nullish (body_booking body) JNull) (events s))
            \<and> (\<forall>entries. get_prop (extracted m) ''missing_fields'' = JArr entries \<and> entries \<noteq> []
                  \<longrightarrow> resp_message resp =
                        JStr (buildMissingMessage (to_text env) (inherited_text env) entries
                                (resp_booking resp)))
            \<and> (\<not> truthy (optional_length (get_prop (extracted m) ''missing_fields''))
                  \<longrightarrow> (if getMissingFields (resp_booking resp) = []
                       then resp_message resp = nullish (get_prop (extracted m) ''message'') (JStr [])
                       else \<exists>prefix. resp_message resp =
                              JStr (prefix @ '' To complete it, please provide:'' @ [CHR 0x0A]
                                      @ join [CHR 0x0A]
                                          (map (\<lambda>l. ''- '' @ l)
                                             (missing_labels (resp_booking resp))))))
            \<and> (truthy (optional_length (get_prop (extracted m) ''missing_fields''))
                  \<and> \<not> greater_than_zero (positive env)
                          (length_of (get_prop (extracted m) ''missing_fields''))
                  \<longrightarrow> resp_message resp = nullish (get_prop (extracted m) ''message'') (JStr [])))
     \<and> (tool_rounds (events s) = 2
          \<and> (confirmed (messages body) \<or> \<not> proposed_mutation (events s))
          \<longrightarrow> resp_message resp = JStr ''Let's continue the booking details.''
              \<and> resp_booking resp = draft_after (nullish (body_booking body) JNull) (events s))"
proof (intro conjI allI impI)
  fix m assume ewc: "ends_with_content (events s) m"
  define b0 where "b0 = draft_after (nullish (body_booking body) JNull) (events s)"
  define merged where "merged =
      (if truthy (get_prop (extracted m) ''draft'')
          \<and> typeof (get_prop (extracted m) ''draft'') = ''object''
       then merge_draft b0 (get_prop (extracted m) ''draft'') else b0)"
  have "\<exists>tr'. Inr resp = content_reply env (extracted m) b0 tr'"
  proof (cases rule: POST_events_cases [of env body w])
    case (finalized c out)
    with assms ewc show ?thesis by (simp add: ends_with_content_def)
  next
    case (rounds conf)
    with assms have "completion_rounds 2 env conf (nullish (body_booking body) JNull) []
           (SystemPrompt (nullish (nullish (body_booking body) JNull) (JObj []))
              # map Chat (messages body))
           \<lparr>world = w, events = []\<rparr> = (Inr resp, s)"
      by simp
    from rounds_content [OF this] ewc show ?thesis by (auto simp: b0_def)
  qed
  then obtain tr' where r: "content_reply env (extracted m) b0 tr' = Inr resp"
    by metis
  note cr = content_reply_Inr [OF r merged_def]
  show bk: "resp_booking resp =
              (if truthy (get_prop (extracted m) ''draft'')
                  \<and> typeof (get_prop (extracted m) ''draft'') = ''object''
               then merge_draft (draft_after (nullish (body_booking body) JNull) (events s))
                      (get_prop (extracted m) ''draft'')
               else draft_after (nullish (body_booking body) JNull) (events s))"
    using cr(1) by (simp add: merged_def b0_def)
  have bm: "resp_booking resp = merged" by (rule cr(1))
  show "resp_message resp =
          JStr (buildMissingMessage (to_text env) (inherited_text env) entries (resp_booking resp))"
    if "get_prop (extracted m) ''missing_fields'' = JArr entries \<and> entries \<noteq> []" for entries
    unfolding bm using that cr(2) by blast
  show "if getMissingFields (resp_booking resp) = []
        then resp_message resp = nullish (get_prop (extracted m) ''message'') (JStr [])
        else \<exists>prefix. resp_message resp =
               JStr (prefix @ '' To complete it, please provide:'' @ [CHR 0x0A]
                       @ join [CHR 0x0A]
                           (map (\<lambda>l. ''- '' @ l) (missing_labels (resp_booking resp))))"
    if nl: "\<not> truthy (optional_length (get_prop (extracted m) ''missing_fields''))"
    unfolding bm
  proof (cases "getMissingFields merged = []")
    case True
    then have rm: "resp_message resp = nullish (get_prop (extracted m) ''message'') (JStr [])"
      by (rule cr(3) [OF nl])
    show "if getMissingFields merged = []
        then resp_message resp = nullish (get_prop (extracted m) ''message'') (JStr [])
        else \<exists>prefix. resp_message resp =
               JStr (prefix @ '' To complete it, please provide:'' @ [CHR 0x0A]
                       @ join [CHR 0x0A] (map (\<lambda>l. ''- '' @ l) (missing_labels merged)))"
      by (simp only: True if_True simp_thms) (rule rm)
  next
    case False
    obtain prefix where pre:
      "buildMissingMessage (to_text env) (inherited_text env)
          (map JStr (getMissingFields merged)) merged =
         prefix @ '' To complete it, please provide:'' @ [CHR 0x0A]
           @ join [CHR 0x0A] (map (\<lambda>l. ''- '' @ l) (missing_labels merged))"
      using missing_message_lists_labels [of "to_text env" "inherited_text env" merged] by blast
    have "resp_message resp =
        JStr (buildMissingMessage (to_text env) (inherited_text env)
                (map JStr (getMissingFields merged)) merged)"
      by (rule cr(4) [OF nl False])
    then have "\<exists>prefix. resp_message resp =
               JStr (prefix @ '' To complete it, please provide:'' @ [CHR 0x0A]
                       @ join [CHR 0x0A] (map (\<lambda>l. ''- '' @ l) (missing_labels merged)))"
      by (intro exI [of _ prefix]) (simp only: pre)
    then show "if getMissingFields merged = []
        then resp_message resp = nullish (get_prop (extracted m) ''message'') (JStr [])
        else \<exists>prefix. resp_message resp =
               JStr (prefix @ '' To complete it, please provide:'' @ [CHR 0x0A]
                       @ join [CHR 0x0A] (map (\<lambda>l. ''- '' @ l) (missing_labels merged)))"
      by (simp only: False if_False)
  qed
  show "resp_message resp = nullish (get_prop (extracted m) ''message'') (JStr [])"
    if "truthy (optional_length (get_prop (extracted m) ''missing_fields''))
        \<and> \<not> greater_than_zero (positive env)
                (length_of (get_prop (extracted m) ''missing_fields''))"
    using that cr(5) by blast
next
  assume a: "tool_rounds (events s) = 2
             \<and> (confirmed (messages body) \<or> \<not> proposed_mutation (events s))"
  have "resp_message resp = JStr ''Let's continue the booking details.''
        \<and> resp_booking resp = draft_after (nullish (body_booking body) JNull) (events s)"
  proof (cases rule: POST_events_cases [of env body w])
    case (finalized c out)
    with assms a show ?thesis by simp
  next
    case (rounds conf)
    with assms have "completion_rounds 2 env conf (nullish (body_booking body) JNull) []
           (SystemPrompt (nullish (nullish (body_booking body) JNull) (JObj []))
              # map Chat (messages body))
           \<lparr>world = w, events = []\<rparr> = (Inr resp, s)"
      by simp
    from rounds_exhausted [OF this] a rounds(1) show ?thesis by auto
  qed
  then show "resp_message resp = JStr ''Let's continue the booking details.''"
    and "resp_booking resp = draft_after (nullish (body_booking body) JNull) (events s)"
    by simp_all
qed

lemma scenario_A:
  "POST (scripted_env (extracts_hotel []) (says ''ok'') (Inr stored_draft))
        \<lparr>messages = user_says ''Book a Resort Hotel'', body_booking = JObj []\<rparr> 0
   = (Inr \<lparr>resp_message =
             JStr (buildMissingMessage (\<lambda>v. ''[object Object]'')
                     (\<lambda>key. ''function () { [native code] }'')
                     (map JStr (getMissingFields hotel_draft)) hotel_draft),
           resp_booking = hotel_draft,
           resp_toolTrace = []\<rparr>,
      \<lparr>world = Suc 0, events = [Completed (Inr (extracts_hotel []))]\<rparr>)"
  by code_simp

lemma scenario_A_labels: "missing_labels hotel_draft = tl (map snd FIELD_LABELS)"
  by code_simp

lemma two_tool_rounds:
  "POST (scripted_env looks_up looks_up (Inl (Error ''Booking not found'')))
        \<lparr>messages = user_says ''Book a Resort Hotel'', body_booking = JObj []\<rparr> 0
   = (Inr \<lparr>resp_message = JStr ''Let's continue the booking details.'',
           resp_booking = JObj [],
           resp_toolTrace =
             [\<lparr>trace_name = ''get_booking'', trace_payload = JObj [(''id'', JStr ''bk-9'')],
               trace_result = JUndefined, trace_error = Some ''Booking not found''\<rparr>,
              \<lparr>trace_name = ''get_booking'', trace_payload = JObj [(''id'', JStr ''bk-9'')],
               trace_result = JUndefined, trace_error = Some ''Booking not found''\<rparr>]\<rparr>,
      \<lparr>world = 4,
        events =
          [Completed (Inr looks_up),
           StoreCall (GetBooking (JStr ''bk-9'')) (Inl (Error ''Booking not found'')),
           Completed (Inr looks_up),
           StoreCall (GetBooking (JStr ''bk-9'')) (Inl (Error ''Booking not found''))]\<rparr>)"
  by code_simp

theorem informational_reply_witness:
  "ends_with_content [Completed (Inr (extracts_hotel []))] (extracts_hotel [])
   \<and> getMissingFields hotel_draft = tl REQUIRED_FIELDS
   \<and> (\<exists>prefix.
         JStr (buildMissingMessage (\<lambda>v. ''[object Object]'')
                 (\<lambda>key. ''function () { [native code] }'')
                 (map JStr (getMissingFields hotel_draft)) hotel_draft)
         = JStr (prefix @ '' To complete it, please provide:'' @ [CHR 0x0A]
                  @ join [CHR 0x0A] (map (\<lambda>l. ''- '' @ l) (tl (map snd FIELD_LABELS)))))
   \<and> tool_rounds
        [Completed (Inr looks_up),
         StoreCall (GetBooking (JStr ''bk-9'')) (Inl (Error ''Booking not found'')),
         Completed (Inr looks_up),
         StoreCall (GetBooking (JStr ''bk-9'')) (Inl (Error ''Booking not found''))] = 2
   \<and> length (getMissingFields (JObj [])) = 22"
proof -
  have e: "ends_with_content [Completed (Inr (extracts_hotel []))] (extracts_hotel [])"
    by (simp add: ends_with_content_def extracts_hotel_def)
  then have e': "ends_with_content
      (events \<lparr>world = Suc 0, events = [Completed (Inr (extracts_hotel []))]\<rparr>)
      (extracts_hotel [])"
    by simp
  have g: "getMissingFields hotel_draft = tl REQUIRED_FIELDS"
    by code_simp
  have ne: "getMissingFields hotel_draft \<noteq> []"
    by (simp add: g REQUIRED_FIELDS_def)
  have nl: "\<not> truthy (optional_length (get_prop (extracted (extracts_hotel [])) ''missing_fields''))"
    by code_simp
  have "if getMissingFields hotel_draft = []
        then JStr (buildMissingMessage (\<lambda>v. ''[object Object]'')
                     (\<lambda>key. ''function () { [native code] }'')
                     (map JStr (getMissingFields hotel_draft)) hotel_draft)
             = nullish (get_prop (extracted (extracts_hotel [])) ''message'') (JStr [])
        else \<exists>prefix.
               JStr (buildMissingMessage (\<lambda>v. ''[object Object]'')
                       (\<lambda>key. ''function () { [native code] }'')
                       (map JStr (getMissingFields hotel_draft)) hotel_draft)
               = JStr (prefix @ '' To complete it, please provide:'' @ [CHR 0x0A]
                        @ join [CHR 0x0A] (map (\<lambda>l. ''- '' @ l) (missing_labels hotel_draft)))"
    using informational_reply [OF scenario_A, THEN conjunct1, THEN spec, THEN mp, OF e',
            THEN conjunct2, THEN conjunct2, THEN conjunct1, THEN mp, OF nl]
    unfolding response.select_convs .
  then have p1: "\<exists>prefix.
         JStr (buildMissingMessage (\<lambda>v. ''[object Object]'')
                 (\<lambda>key. ''function () { [native code] }'')
                 (map JStr (getMissingFields hotel_draft)) hotel_draft)
         = JStr (prefix @ '' To complete it, please provide:'' @ [CHR 0x0A]
                  @ join [CHR 0x0A] (map (\<lambda>l. ''- '' @ l) (tl (map snd FIELD_LABELS))))"
    by (simp only: ne if_False scenario_A_labels)
  have t: "tool_rounds
        [Completed (Inr looks_up),
         StoreCall (GetBooking (JStr ''bk-9'')) (Inl (Error ''Booking not found'')),
         Completed (Inr looks_up),
         StoreCall (GetBooking (JStr ''bk-9'')) (Inl (Error ''Booking not found''))] = 2"
    by code_simp
  have all: "length (getMissingFields (JObj [])) = 22"
    by code_simp
  from e g p1 t all show ?thesis
    by (intro conjI)
qed

text \<open>
  The claim C4 as stated fails: the merged draft of scenario A misses 21 fields, but the
  model sent \<open>missing_fields = ["adults"]\<close>, and the reply lists that one label only.
\<close>

theorem informational_reply_counterexample:
  "length (getMissingFields hotel_draft) = 21
   \<and> POST (scripted_env (extracts_hotel [(''missing_fields'', JArr [JStr ''adults''])])
            (says ''ok'') (Inr stored_draft))
        \<lparr>messages = user_says ''Book a Resort Hotel'', body_booking = JObj []\<rparr> 0
     = (Inr \<lparr>resp_message =
               JStr (''I can start a Resort Hotel booking. To complete it, please provide:''
                     @ [CHR 0x0A] @ ''- number of adults''),
             resp_booking = hotel_draft,
             resp_toolTrace = []\<rparr>,
        \<lparr>world = Suc 0,
          events = [Completed (Inr (extracts_hotel
                      [(''missing_fields'', JArr [JStr ''adults''])]))]\<rparr>)"
  by code_simp

text \<open>
  A name that the label table inherits from the prototype of objects is printed as the
  text of the inherited member, and a turn whose completion content is \<open>null\<close>, or whose
  \<open>missing_fields\<close> has a positive length without being an array, throws instead of
  returning a response.
\<close>

lemma inherited_label_is_printed:
  "field_label text_of inherited (JStr ''constructor'') = inherited ''constructor''"
  by (simp add: field_label_def FIELD_LABELS_def OBJECT_PROTOTYPE_NAMES_def)

lemma null_content_throws:
  "fst (POST (scripted_env \<lparr>tool_calls = [], extracted = JNull\<rparr> (says ''ok'') (Inr stored_draft))
          \<lparr>messages = user_says ''Book a Resort Hotel'', body_booking = JObj []\<rparr> 0)
   = Inl (Error ''Cannot read properties of null (reading 'draft')'')"
  by code_simp

lemma listed_string_throws:
  "fst (POST (scripted_env (extracts_hotel [(''missing_fields'', JStr ''adults'')])
                (says ''ok'') (Inr stored_draft))
          \<lparr>messages = user_says ''Book a Resort Hotel'', body_booking = JObj []\<rparr> 0)
   = Inl (Error ''missingFields.map is not a function'')"
  by code_simp

section \<open>The round trip through the store\<close>

lemma map_of_parsed:
  "map_of (map (\<lambda>(key, check). (key, g key)) (filter (\<lambda>(key, check). p key) shape)) k
     = (if k \<in> fst ` set shape \<and> p k then Some (g k) else None)"
  by (induction shape) (auto simp: image_iff)

lemma get_prop_parsed:
  assumes "schema_parse shape (JObj kvs) = Inr payload"
  shows "get_prop (JObj payload) k =
           (if k \<in> fst ` set shape then get_prop (JObj kvs) k else JUndefined)"
proof -
  have "payload = map (\<lambda>(key, check). (key, get_prop (JObj kvs) key))
                    (filter (\<lambda>(key, check). map_of kvs key \<noteq> None) shape)"
    using assms by (simp add: schema_parse_def Let_def split: if_splits)
  then have "map_of payload k =
      (if k \<in> fst ` set shape \<and> map_of kvs k \<noteq> None then Some (get_prop (JObj kvs) k) else None)"
    by (simp only: map_of_parsed)
  then show ?thesis by (auto split: option.splits)
qed

lemma checks_of_parsed:
  assumes "schema_parse shape body = Inr payload"
  shows "list_all (\<lambda>(key, check). check (get_prop body key)) shape"
proof -
  obtain kvs where b: "body = JObj kvs"
    using assms by (cases body) (simp_all add: schema_parse_def)
  with assms have "filter (\<lambda>(key, check). \<not> check (get_prop body key)) shape = []"
    by (simp add: schema_parse_def Let_def split: if_splits)
  then show ?thesis
    by (auto simp: filter_empty_conv list_all_iff)
qed

lemma parsed_is_object:
  assumes "schema_parse shape body = Inr payload"
  obtains kvs where "body = JObj kvs"
  using assms by (cases body) (simp_all add: schema_parse_def)

lemma required_in_schema: "set REQUIRED_FIELDS \<subseteq> fst ` set bookingCreateSchema"
  by (simp add: REQUIRED_FIELDS_def bookingCreateSchema_def bookingBaseSchema_def)

lemma required_not_added:
  "f \<in> set REQUIRED_FIELDS \<Longrightarrow>
     f \<noteq> ''id'' \<and> f \<noteq> ''arrival_date'' \<and> f \<noteq> ''agent'' \<and> f \<noteq> ''company''
     \<and> f \<noteq> ''created_at'' \<and> f \<noteq> ''deleted_at''"
  by (auto simp: REQUIRED_FIELDS_def)

lemma get_prop_persisted:
  assumes "f \<noteq> ''id''" "f \<noteq> ''created_at''" "f \<noteq> ''deleted_at''"
  shows "get_prop (JObj (persisted_booking new_id now row)) f = get_prop (JObj row) f"
  using assms by (simp add: persisted_booking_def map_of_append map_add_def split: option.splits)

lemma get_prop_update_other:
  "f \<noteq> k \<Longrightarrow> get_prop (JObj (AList.update k v al)) f = get_prop (JObj al) f"
  by (simp add: update_conv')

lemma field_missing_cong:
  "get_prop a f = get_prop b f \<Longrightarrow> field_missing a f = field_missing b f"
  by (simp add: field_missing_def)

lemma enum_present:
  assumes "z_enum options v" and "list_all (\<lambda>s. \<not> whitespace_only s) options"
    and "f \<notin> set NUMBER_FIELDS" "f \<notin> set BOOLEAN_FIELDS" "f \<noteq> ''arrival_date_month''"
  shows "\<not> missing_value_spec f v"
  using assms by (cases v) (auto simp: z_enum_def list_all_iff)

lemma int_min_present:
  assumes "z_int_min lo v" and "f \<notin> set BOOLEAN_FIELDS"
  shows "\<not> missing_value_spec f v"
  using assms by (cases v) (auto simp: z_int_min_def)

lemma int_range_present:
  assumes "z_int_range lo hi v" and "f \<notin> set BOOLEAN_FIELDS"
  shows "\<not> missing_value_spec f v"
  using assms by (cases v) (auto simp: z_int_range_def)

lemma number_present:
  assumes "z_number v" and "f \<notin> set BOOLEAN_FIELDS"
  shows "\<not> missing_value_spec f v"
  using assms by (cases v) (auto simp: z_number_def)

lemma boolean_present:
  assumes "z_boolean v" and "f \<notin> set NUMBER_FIELDS"
  shows "\<not> missing_value_spec f v"
  using assms by (cases v) (auto simp: z_boolean_def)

lemma digit_not_whitespace: "is_digit c \<Longrightarrow> \<not> is_whitespace c"
  by (auto simp: is_digit_def is_whitespace_def)

lemma date_not_blank: "date_shape s \<Longrightarrow> \<not> whitespace_only s"
  by (erule date_shape.elims) (auto simp: whitespace_only_def digit_not_whitespace)

lemma date_present:
  assumes "z_date v"
    and "f \<notin> set NUMBER_FIELDS" "f \<notin> set BOOLEAN_FIELDS" "f \<noteq> ''arrival_date_month''"
  shows "\<not> missing_value_spec f v"
  using assms by (cases v) (auto simp: z_date_def date_not_blank)

lemma string_present:
  assumes "z_string_range lo hi v" and "\<not> whitespace_only (string_of v)"
    and "f \<notin> set NUMBER_FIELDS" "f \<notin> set BOOLEAN_FIELDS" "f \<noteq> ''arrival_date_month''"
  shows "\<not> missing_value_spec f v"
  using assms by (cases v) (auto simp: z_string_range_def string_of_def)

lemma empty_not_month: "[] \<notin> set MONTH_NAMES"
  by (simp add: MONTH_NAMES_def)

lemma month_present:
  assumes "z_string_min lo v" and "toLowerCase (trim (string_of v)) \<in> set MONTH_NAMES"
  shows "\<not> missing_value_spec ''arrival_date_month'' v"
proof -
  obtain s where v: "v = JStr s"
    using assms(1) by (cases v) (simp_all add: z_string_min_def)
  with assms(2) have m: "toLowerCase (trim s) \<in> set MONTH_NAMES"
    by (simp add: string_of_def)
  then have "trim s \<noteq> []"
    using empty_not_month by (auto simp: toLowerCase_def)
  then have "\<not> whitespace_only s"
    by (simp add: whitespace_only_def trim_empty_iff)
  with m v show ?thesis
    by (simp add: canonical_month_iff NUMBER_FIELDS_def BOOLEAN_FIELDS_def)
qed

lemma enums_not_blank:
  "list_all (\<lambda>s. \<not> whitespace_only s)
     (HOTEL_ENUM @ MARKET_SEGMENT_ENUM @ CUSTOMER_TYPE_ENUM @ RESERVED_ROOM_ENUM @ RES_STATUS_ENUM)"
  by code_simp

lemma meal_present:
  assumes "z_enum MEAL_ENUM v" and "v \<noteq> JStr []"
  shows "\<not> missing_value_spec ''meal'' v"
proof -
  have "list_all (\<lambda>s. \<not> whitespace_only s) [''BB'', ''HB'', ''FB'', ''SC'']"
    by code_simp
  moreover have "z_enum [''BB'', ''HB'', ''FB'', ''SC''] v"
    using assms by (cases v) (auto simp: z_enum_def MEAL_ENUM_def)
  ultimately show ?thesis
    by (intro enum_present [where options = "[''BB'', ''HB'', ''FB'', ''SC'']"])
       (simp_all add: NUMBER_FIELDS_def BOOLEAN_FIELDS_def)
qed

lemma accepted_fields_present:
  assumes checks: "list_all (\<lambda>(key, check). check (get_prop body key)) bookingCreateSchema"
    and country: "\<not> whitespace_only (string_of (get_prop body ''country''))"
    and meal: "get_prop body ''meal'' \<noteq> JStr []"
    and month: "toLowerCase (trim (string_of (get_prop body ''arrival_date_month''))) \<in> set MONTH_NAMES"
  shows "list_all (\<lambda>f. \<not> missing_value_spec f (get_prop body f)) REQUIRED_FIELDS"
proof -
  have c:
    "z_enum HOTEL_ENUM (get_prop body ''hotel'')"
    "z_int_min 0 (get_prop body ''lead_time'')"
    "z_int_min 2000 (get_prop body ''arrival_date_year'')"
    "z_string_min 1 (get_prop body ''arrival_date_month'')"
    "z_int_range 1 53 (get_prop body ''arrival_date_week_number'')"
    "z_int_range 1 31 (get_prop body ''arrival_date_day_of_month'')"
    "z_int_min 0 (get_prop body ''stays_in_weekend_nights'')"
    "z_int_min 0 (get_prop body ''stays_in_week_nights'')"
    "z_int_min 0 (get_prop body ''adults'')"
    "z_int_min 0 (get_prop body ''children'')"
    "z_int_min 0 (get_prop body ''babies'')"
    "z_enum MEAL_ENUM (get_prop body ''meal'')"
    "z_string_range 2 3 (get_prop body ''country'')"
    "z_enum MARKET_SEGMENT_ENUM (get_prop body ''market_segment'')"
    "z_boolean (get_prop body ''is_repeated_guest'')"
    "z_enum RESERVED_ROOM_ENUM (get_prop body ''reserved_room_type'')"
    "z_optional_string (get_prop body ''agent'')"
    "z_optional_string (get_prop body ''company'')"
    "z_enum CUSTOMER_TYPE_ENUM (get_prop body ''customer_type'')"
    "z_number (get_prop body ''adr'')"
    "z_int_min 0 (get_prop body ''required_car_parking_spaces'')"
    "z_int_min 0 (get_prop body ''total_of_special_requests'')"
    "z_enum RES_STATUS_ENUM (get_prop body ''reservation_status'')"
    "z_date (get_prop body ''reservation_status_date'')"
    using checks by (simp_all add: bookingCreateSchema_def bookingBaseSchema_def)
  have nb: "list_all (\<lambda>s. \<not> whitespace_only s) HOTEL_ENUM"
    "list_all (\<lambda>s. \<not> whitespace_only s) MARKET_SEGMENT_ENUM"
    "list_all (\<lambda>s. \<not> whitespace_only s) CUSTOMER_TYPE_ENUM"
    "list_all (\<lambda>s. \<not> whitespace_only s) RESERVED_ROOM_ENUM"
    "list_all (\<lambda>s. \<not> whitespace_only s) RES_STATUS_ENUM"
    using enums_not_blank by simp_all
  have p1: "\<not> missing_value_spec ''hotel'' (get_prop body ''hotel'')"
    by (rule enum_present [OF c(1) nb(1)]) (simp_all add: NUMBER_FIELDS_def BOOLEAN_FIELDS_def)
  have p2: "\<not> missing_value_spec ''lead_time'' (get_prop body ''lead_time'')"
    by (rule int_min_present [OF c(2)]) (simp_all add: NUMBER_FIELDS_def BOOLEAN_FIELDS_def)
  have p3: "\<not> missing_value_spec ''arrival_date_year'' (get_prop body ''arrival_date_year'')"
    by (rule int_min_present [OF c(3)]) (simp_all add: NUMBER_FIELDS_def BOOLEAN_FIELDS_def)
  have p4: "\<not> missing_value_spec ''arrival_date_month'' (get_prop body ''arrival_date_month'')"
    by (rule month_present [OF c(4) month])
  have p5: "\<not> missing_value_spec ''arrival_date_week_number'' (get_prop body ''arrival_date_week_number'')"
    by (rule int_range_present [OF c(5)]) (simp_all add: NUMBER_FIELDS_def BOOLEAN_FIELDS_def)
  have p6: "\<not> missing_value_spec ''arrival_date_day_of_month'' (get_prop body ''arrival_date_day_of_month'')"
    by (rule int_range_present [OF c(6)]) (simp_all add: NUMBER_FIELDS_def BOOLEAN_FIELDS_def)
  have p7: "\<not> missing_value_spec ''stays_in_weekend_nights'' (get_prop body ''stays_in_weekend_nights'')"
    by (rule int_min_present [OF c(7)]) (simp_all add: NUMBER_FIELDS_def BOOLEAN_FIELDS_def)
  have p8: "\<not> missing_value_spec ''stays_in_week_nights'' (get_prop body ''stays_in_week_nights'')"
    by (rule int_min_present [OF c(8)]) (simp_all add: NUMBER_FIELDS_def BOOLEAN_FIELDS_def)
  have p9: "\<not> missing_value_spec ''adults'' (get_prop body ''adults'')"
    by (rule int_min_present [OF c(9)]) (simp_all add: NUMBER_FIELDS_def BOOLEAN_FIELDS_def)
  have p10: "\<not> missing_value_spec ''children'' (get_prop body ''children'')"
    by (rule int_min_present [OF c(10)]) (simp_all add: NUMBER_FIELDS_def BOOLEAN_FIELDS_def)
  have p11: "\<not> missing_value_spec ''babies'' (get_prop body ''babies'')"
    by (rule int_min_present [OF c(11)]) (simp_all add: NUMBER_FIELDS_def BOOLEAN_FIELDS_def)
  have p12: "\<not> missing_value_spec ''meal'' (get_prop body ''meal'')"
    by (rule meal_present [OF c(12) meal])
  have p13: "\<not> missing_value_spec ''country'' (get_prop body ''country'')"
    by (rule string_present [OF c(13) country]) (simp_all add: NUMBER_FIELDS_def BOOLEAN_FIELDS_def)
  have p14: "\<not> missing_value_spec ''market_segment'' (get_prop body ''market_segment'')"
    by (rule enum_present [OF c(14) nb(2)]) (simp_all add: NUMBER_FIELDS_def BOOLEAN_FIELDS_def)
  have p15: "\<not> missing_value_spec ''is_repeated_guest'' (get_prop body ''is_repeated_guest'')"
    by (rule boolean_present [OF c(15)]) (simp_all add: NUMBER_FIELDS_def BOOLEAN_FIELDS_def)
  have p16: "\<not> missing_value_spec ''reserved_room_type'' (get_prop body ''reserved_room_type'')"
    by (rule enum_present [OF c(16) nb(4)]) (simp_all add: NUMBER_FIELDS_def BOOLEAN_FIELDS_def)
  have p17: "\<not> missing_value_spec ''customer_type'' (get_prop body ''customer_type'')"
    by (rule enum_present [OF c(19) nb(3)]) (simp_all add: NUMBER_FIELDS_def BOOLEAN_FIELDS_def)
  have p18: "\<not> missing_value_spec ''adr'' (get_prop body ''adr'')"
    by (rule number_present [OF c(20)]) (simp_all add: NUMBER_FIELDS_def BOOLEAN_FIELDS_def)
  have p19: "\<not> missing_value_spec ''required_car_parking_spaces'' (get_prop body ''required_car_parking_spaces'')"
    by (rule int_min_present [OF c(21)]) (simp_all add: NUMBER_FIELDS_def BOOLEAN_FIELDS_def)
  have p20: "\<not> missing_value_spec ''total_of_special_requests'' (get_prop body ''total_of_special_requests'')"
    by (rule int_min_present [OF c(22)]) (simp_all add: NUMBER_FIELDS_def BOOLEAN_FIELDS_def)
  have p21: "\<not> missing_value_spec ''reservation_status'' (get_prop body ''reservation_status'')"
    by (rule enum_present [OF c(23) nb(5)]) (simp_all add: NUMBER_FIELDS_def BOOLEAN_FIELDS_def)
  have p22: "\<not> missing_value_spec ''reservation_status_date'' (get_prop body ''reservation_status_date'')"
    by (rule date_present [OF c(24)]) (simp_all add: NUMBER_FIELDS_def BOOLEAN_FIELDS_def)
  show ?thesis
    unfolding REQUIRED_FIELDS_def
    by (simp add: p1 p2 p3 p4 p5 p6 p7 p8 p9 p10 p11 p12 p13 p14 p15 p16 p17 p18 p19 p20 p21 p22)
qed

lemma create_route_Created:
  assumes "create_route rt body = Created b"
    and "insert_booking rt = (\<lambda>row. Inr (persisted_booking new_id now row))"
  obtains payload arrival_date where
    "schema_parse bookingCreateSchema body = Inr payload"
    "b = JObj (persisted_booking new_id now
            (AList.update ''company'' (nullish (get_prop (JObj payload) ''company'') JNull)
               (AList.update ''agent'' (nullish (get_prop (JObj payload) ''agent'') JNull)
                  (AList.update ''arrival_date'' arrival_date payload))))"
  using assms
  by (auto simp: create_route_def split: sum.splits)

lemma created_fields_are_body_fields:
  assumes "create_route rt body = Created b"
    and "insert_booking rt = (\<lambda>row. Inr (persisted_booking new_id now row))"
    and "f \<in> set REQUIRED_FIELDS"
  shows "get_prop b f = get_prop body f"
proof -
  from assms(1,2) obtain payload arrival_date where
    sp: "schema_parse bookingCreateSchema body = Inr payload" and
    b: "b = JObj (persisted_booking new_id now
            (AList.update ''company'' (nullish (get_prop (JObj payload) ''company'') JNull)
               (AList.update ''agent'' (nullish (get_prop (JObj payload) ''agent'') JNull)
                  (AList.update ''arrival_date'' arrival_date payload))))"
    by (rule create_route_Created)
  obtain kvs where body: "body = JObj kvs"
    using sp by (rule parsed_is_object)
  note ne = required_not_added [OF assms(3)]
  have "get_prop b f =
      get_prop (JObj (AList.update ''company'' (nullish (get_prop (JObj payload) ''company'') JNull)
               (AList.update ''agent'' (nullish (get_prop (JObj payload) ''agent'') JNull)
                  (AList.update ''arrival_date'' arrival_date payload)))) f"
    unfolding b using ne by (intro get_prop_persisted) simp_all
  also have "\<dots> = get_prop (JObj (AList.update ''agent'' (nullish (get_prop (JObj payload) ''agent'') JNull)
                  (AList.update ''arrival_date'' arrival_date payload))) f"
    using ne by (intro get_prop_update_other) simp
  also have "\<dots> = get_prop (JObj (AList.update ''arrival_date'' arrival_date payload)) f"
    using ne by (intro get_prop_update_other) simp
  also have "\<dots> = get_prop (JObj payload) f"
    using ne by (intro get_prop_update_other) simp
  also have "\<dots> = get_prop body f"
    using get_prop_parsed [of bookingCreateSchema kvs payload f] sp body
      required_in_schema assms(3)
    by auto
  finally show ?thesis .
qed

text \<open>
  C3, as the code has it: a payload that the create validation accepts, whose country is
  not blank, whose meal plan is not the empty one and whose arrival month is one of the
  twelve month names, comes back from a successful create as a booking with no missing
  field.  The store is taken to return the row it was given together with an identifier,
  a creation timestamp and a soft-delete marker.
\<close>

theorem created_booking_complete:
  assumes "client_createBooking rt body = Inr b"
    and "insert_booking rt = (\<lambda>row. Inr (persisted_booking new_id now row))"
    and "trim (string_of (get_prop body ''country'')) \<noteq> []"
    and "get_prop body ''meal'' \<noteq> JStr []"
    and "toLowerCase (trim (string_of (get_prop body ''arrival_date_month''))) \<in> set MONTH_NAMES"
  shows "getMissingFields b = []"
proof -
  have created: "create_route rt body = Created b"
    using assms(1) by (auto simp: client_createBooking_def split: api_response.splits)
  then obtain payload arrival_date where
    sp: "schema_parse bookingCreateSchema body = Inr payload" and
    b: "b = JObj (persisted_booking new_id now
            (AList.update ''company'' (nullish (get_prop (JObj payload) ''company'') JNull)
               (AList.update ''agent'' (nullish (get_prop (JObj payload) ''agent'') JNull)
                  (AList.update ''arrival_date'' arrival_date payload))))"
    using assms(2) by (rule create_route_Created)
  have "\<not> whitespace_only (string_of (get_prop body ''country''))"
    using assms(3) by (simp add: whitespace_only_def trim_empty_iff)
  with checks_of_parsed [OF sp] assms(4,5)
  have present: "list_all (\<lambda>f. \<not> missing_value_spec f (get_prop body f)) REQUIRED_FIELDS"
    by (intro accepted_fields_present)
  have "\<not> field_missing b f" if "f \<in> set REQUIRED_FIELDS" for f
  proof -
    have "get_prop b f = get_prop body f"
      using created assms(2) that by (rule created_fields_are_body_fields)
    then have "field_missing b f = missing_value_spec f (get_prop body f)"
      by (simp add: field_missing_spec)
    with present that show ?thesis
      by (simp add: list_all_iff)
  qed
  then show ?thesis
    by (simp add: getMissingFields_def nullish_def b filter_empty_conv Let_def)
qed

lemma create_new_draft:
  "client_createBooking persisting_runtime new_draft = Inr created_booking"
  by code_simp

theorem created_booking_complete_witness:
  "client_createBooking persisting_runtime new_draft = Inr created_booking
   \<and> getMissingFields created_booking = []"
proof -
  have ins: "insert_booking persisting_runtime =
      (\<lambda>row. Inr (persisted_booking ''bk-2'' (JStr ''2027-01-01T00:00:00.000Z'') row))"
    by (simp add: persisting_runtime_def)
  have h: "trim (string_of (get_prop new_draft ''country'')) \<noteq> []"
    "get_prop new_draft ''meal'' \<noteq> JStr []"
    "toLowerCase (trim (string_of (get_prop new_draft ''arrival_date_month''))) \<in> set MONTH_NAMES"
    by code_simp+
  have "getMissingFields created_booking = []"
    by (rule created_booking_complete [OF create_new_draft ins h])
  with create_new_draft show ?thesis
    by (intro conjI)
qed

text \<open>
  The claim C3 as stated fails: the create validation accepts a country code of two
  spaces (a string of length 2), the create succeeds, and the validator reports the
  returned booking's \<open>country\<close> missing.
\<close>

theorem created_booking_complete_counterexample:
  "(case schema_parse bookingCreateSchema blank_country_payload of
      Inr payload \<Rightarrow> True | Inl failed \<Rightarrow> False)
   \<and> (case client_createBooking persisting_runtime blank_country_payload of
        Inr b \<Rightarrow> getMissingFields b
      | Inl err \<Rightarrow> []) = [''country'']"
  by code_simp

text \<open>
  The same happens for the empty meal plan, which \<^verbatim>\<open>MEAL_ENUM\<close> lists and the label of
  \<open>meal\<close> offers ("or empty"): the store accepts it, the validator reports it missing.
\<close>

lemma created_empty_meal_is_missing:
  "(case schema_parse bookingCreateSchema empty_meal_payload of
      Inr payload \<Rightarrow> True | Inl failed \<Rightarrow> False)
   \<and> (case client_createBooking persisting_runtime empty_meal_payload of
        Inr b \<Rightarrow> getMissingFields b
      | Inl err \<Rightarrow> []) = [''meal'']"
  by code_simp

end
